theory Spec2Isabelle
  imports Complex_Main
begin

section \<open>JavaScript numbers\<close>

text \<open>
  A JavaScript \<^verbatim>\<open>number\<close> is an IEEE double. The model keeps the four kinds of
  value the parser can tell apart (NaN, the two infinities and the finite values) and
  takes a finite value as the exact rational it denotes: rounding and overflow are
  outside the model, and the two zeros are one value.
\<close>

datatype jsnum = NaN | NInf | Num rat | PInf

text \<open>The operators \<^verbatim>\<open>+\<close>, unary \<^verbatim>\<open>-\<close> and binary \<^verbatim>\<open>-\<close>.\<close>

fun jsplus :: "jsnum \<Rightarrow> jsnum \<Rightarrow> jsnum" where
  "jsplus NaN _ = NaN"
| "jsplus _ NaN = NaN"
| "jsplus PInf NInf = NaN"
| "jsplus NInf PInf = NaN"
| "jsplus PInf _ = PInf"
| "jsplus _ PInf = PInf"
| "jsplus NInf _ = NInf"
| "jsplus _ NInf = NInf"
| "jsplus (Num a) (Num b) = Num (a + b)"

fun jsneg :: "jsnum \<Rightarrow> jsnum" where
  "jsneg NaN = NaN"
| "jsneg NInf = PInf"
| "jsneg PInf = NInf"
| "jsneg (Num a) = Num (- a)"

definition jsminus :: "jsnum \<Rightarrow> jsnum \<Rightarrow> jsnum" where
  "jsminus a b = jsplus a (jsneg b)"

text \<open>The comparison \<^verbatim>\<open>a < b\<close>: false as soon as one side is NaN.\<close>

fun jsless :: "jsnum \<Rightarrow> jsnum \<Rightarrow> bool" where
  "jsless NaN _ = False"
| "jsless _ NaN = False"
| "jsless PInf _ = False"
| "jsless _ PInf = True"
| "jsless _ NInf = False"
| "jsless NInf _ = True"
| "jsless (Num a) (Num b) = (a < b)"

text \<open>\<^verbatim>\<open>Math.max\<close> of two values (NaN as soon as one is NaN) and of a list of
  arguments (\<^verbatim>\<open>-Infinity\<close> when there is none).\<close>

fun jsmax :: "jsnum \<Rightarrow> jsnum \<Rightarrow> jsnum" where
  "jsmax NaN _ = NaN"
| "jsmax _ NaN = NaN"
| "jsmax a b = (if jsless a b then b else a)"

definition Math_max :: "jsnum list \<Rightarrow> jsnum" where
  "Math_max args = foldl jsmax NInf args"

text \<open>Truthiness of a number (\<^verbatim>\<open>0\<close> and NaN are falsy), and \<^verbatim>\<open>v || 0\<close>.\<close>

fun truthy_num :: "jsnum \<Rightarrow> bool" where
  "truthy_num NaN = False"
| "truthy_num (Num a) = (a \<noteq> 0)"
| "truthy_num _ = True"

definition or_zero :: "jsnum \<Rightarrow> jsnum" where
  "or_zero v = (if truthy_num v then v else Num 0)"

section \<open>The builtin \<^verbatim>\<open>parseFloat\<close>\<close>

text \<open>
  \<^verbatim>\<open>parseFloat\<close> is a builtin of the language, modelled after ECMAScript: leading white
  space is dropped, the longest prefix that is a \<^verbatim>\<open>StrDecimalLiteral\<close> (an optional sign,
  then \<^verbatim>\<open>Infinity\<close>, or digits with an optional fraction and an optional exponent) is read,
  and the result is NaN when there is no such prefix. Strings are ASCII here.
\<close>

definition is_digit :: "char \<Rightarrow> bool" where
  "is_digit c = (c \<in> set ''0123456789'')"

definition is_whitespace :: "char \<Rightarrow> bool" where
  "is_whitespace c = (of_char c \<in> {9, 10, 11, 12, 13, 32 :: nat})"

definition digit_val :: "char \<Rightarrow> nat" where
  "digit_val c = of_char c - 48"

definition digits_value :: "string \<Rightarrow> nat" where
  "digits_value ds = foldl (\<lambda>a c. 10 * a + digit_val c) 0 ds"

definition scale10 :: "rat \<Rightarrow> int \<Rightarrow> rat" where
  "scale10 m e = (if 0 \<le> e then m * 10 ^ nat e else m / 10 ^ nat (- e))"

text \<open>The exponent part at the head of the rest of the literal; 0 when there is none
  (an \<^verbatim>\<open>e\<close> that no digit follows is not part of the literal).\<close>

definition exponent_of :: "string \<Rightarrow> int" where
  "exponent_of r =
     (case r of
        [] \<Rightarrow> 0
      | e # r1 \<Rightarrow>
          if e = CHR ''e'' \<or> e = CHR ''E'' then
            (case r1 of
               [] \<Rightarrow> 0
             | s # r2 \<Rightarrow>
                 if is_digit s then int (digits_value (takeWhile is_digit r1))
                 else if s = CHR ''+'' \<and> takeWhile is_digit r2 \<noteq> []
                   then int (digits_value (takeWhile is_digit r2))
                 else if s = CHR ''-'' \<and> takeWhile is_digit r2 \<noteq> []
                   then - int (digits_value (takeWhile is_digit r2))
                 else 0)
          else 0)"

definition StrUnsignedDecimalLiteral :: "string \<Rightarrow> jsnum" where
  "StrUnsignedDecimalLiteral s =
     (if take 8 s = ''Infinity'' then PInf
      else
        let ip = takeWhile is_digit s; r = dropWhile is_digit s in
        (case r of
           [] \<Rightarrow> if ip = [] then NaN else Num (of_nat (digits_value ip))
         | d # r1 \<Rightarrow>
             if d = CHR ''.'' then
               (let fp = takeWhile is_digit r1; r2 = dropWhile is_digit r1 in
                if ip = [] \<and> fp = [] then NaN
                else Num (scale10 (of_nat (digits_value (ip @ fp)) / 10 ^ length fp)
                            (exponent_of r2)))
             else if ip = [] then NaN
             else Num (scale10 (of_nat (digits_value ip)) (exponent_of r))))"

definition parseFloat :: "string \<Rightarrow> jsnum" where
  "parseFloat s =
     (let t = dropWhile is_whitespace s in
      case t of
        [] \<Rightarrow> NaN
      | c # u \<Rightarrow>
          if c = CHR ''+'' then StrUnsignedDecimalLiteral u
          else if c = CHR ''-'' then jsneg (StrUnsignedDecimalLiteral u)
          else StrUnsignedDecimalLiteral t)"

text \<open>A string has a numeric prefix when, after white space and an optional sign, it
  starts with a digit, with a dot and a digit, or with \<^verbatim>\<open>Infinity\<close>.\<close>

definition starts_number :: "string \<Rightarrow> bool" where
  "starts_number u =
     (take 8 u = ''Infinity'' \<or>
      (case u of
         [] \<Rightarrow> False
       | c # v \<Rightarrow> is_digit c \<or> (c = CHR ''.'' \<and> (case v of [] \<Rightarrow> False | d # _ \<Rightarrow> is_digit d))))"

definition numeric_prefix :: "string \<Rightarrow> bool" where
  "numeric_prefix s =
     (case dropWhile is_whitespace s of
        [] \<Rightarrow> False
      | c # u \<Rightarrow> if c = CHR ''+'' \<or> c = CHR ''-'' then starts_number u else starts_number (c # u))"

section \<open>The Cost Extractor\<close>

text \<open>\<^verbatim>\<open>CostInfo\<close>, with the three fields \<^verbatim>\<open>parseCost\<close> reads (the others are never
  read by the parser).\<close>

record CostInfo =
  query_cost :: "string option"
  read_cost :: "string option"
  prefix_cost :: "string option"

text \<open>Truthiness of an optional string (absent and the empty string are falsy) and
  the operator \<^verbatim>\<open>a || b\<close> on two of them.\<close>

definition truthy_str :: "string option \<Rightarrow> bool" where
  "truthy_str a = (case a of None \<Rightarrow> False | Some s \<Rightarrow> s \<noteq> [])"

definition or_str :: "string option \<Rightarrow> string option \<Rightarrow> string option" where
  "or_str a b = (if truthy_str a then a else b)"

definition parseCost :: "CostInfo option \<Rightarrow> jsnum" where
  "parseCost costInfo =
     (case costInfo of
        None \<Rightarrow> Num 0
      | Some ci \<Rightarrow>
          (case or_str (or_str (query_cost ci) (read_cost ci)) (prefix_cost ci) of
             None \<Rightarrow> Num 0
           | Some cost \<Rightarrow> if cost \<noteq> [] then parseFloat cost else Num 0))"

section \<open>The input plan tree\<close>

text \<open>
  The types of \<^verbatim>\<open>types/index.ts\<close>, with the fields the parser reads. An optional field
  is an \<open>option\<close> (absent, \<^verbatim>\<open>undefined\<close> and \<^verbatim>\<open>null\<close> are \<open>None\<close>). The wrappers
  \<^verbatim>\<open>NestedLoopItem\<close>, \<^verbatim>\<open>SubqueryInfo\<close>, \<^verbatim>\<open>QuerySpecification\<close> and
  \<^verbatim>\<open>MaterializedFromSubquery\<close>, of which the parser reads one field only
  (\<^verbatim>\<open>table\<close> or \<^verbatim>\<open>query_block\<close>), stand for that field. The row estimates are JSON
  numbers, taken as exact rationals. \<^verbatim>\<open>BufferResult\<close> is passed to
  \<^verbatim>\<open>parseBufferResult\<close> under the type of a grouping operation, of which it has the
  three fields read there.
\<close>

datatype TableInfo = TableInfo
    (table_name: string)
    (access_type: string)
    (ti_key: "string option")
    (used_key_parts: "string list option")
    (rows_examined_per_scan: "rat option")
    (rows_produced_per_join: "rat option")
    (ti_cost_info: "CostInfo option")
    (attached_condition: "string option")
    (using_index: "bool option")
    (using_index_condition: "string option")
    (using_temporary: "bool option")
    (ti_using_filesort: "bool option")
    (materialized_from_subquery: "QueryBlock option")
    (ti_message: "string option")
and QueryBlock = QueryBlock
    (qb_table: "TableInfo option")
    (qb_nested_loop: "TableInfo list option")
    (ordering_operation: "OrderingOperation option")
    (qb_grouping_operation: "GroupingOperation option")
    (duplicates_removal: "DuplicatesRemoval option")
    (qb_query_block: "QueryBlock option")
    (union_result: "UnionResult option")
    (subqueries: "QueryBlock list option")
    (optimized_away_subqueries: "QueryBlock list option")
    (attached_subqueries: "QueryBlock list option")
    (qb_message: "string option")
and OrderingOperation = OrderingOperation
    (oo_using_filesort: bool)
    (oo_using_temporary_table: "bool option")
    (oo_cost_info: "CostInfo option")
    (oo_table: "TableInfo option")
    (oo_nested_loop: "TableInfo list option")
    (oo_grouping_operation: "GroupingOperation option")
and GroupingOperation = GroupingOperation
    (go_using_filesort: "bool option")
    (go_using_temporary_table: "bool option")
    (go_cost_info: "CostInfo option")
    (go_table: "TableInfo option")
    (go_nested_loop: "TableInfo list option")
    (go_buffer_result: "BufferResult option")
and DuplicatesRemoval = DuplicatesRemoval
    (dr_using_filesort: "bool option")
    (dr_using_temporary_table: "bool option")
    (dr_cost_info: "CostInfo option")
    (dr_table: "TableInfo option")
    (dr_nested_loop: "TableInfo list option")
and BufferResult = BufferResult
    (br_using_temporary_table: "bool option")
    (br_table: "TableInfo option")
    (br_nested_loop: "TableInfo list option")
and UnionResult = UnionResult
    (ur_using_temporary_table: bool)
    (query_specifications: "QueryBlock list option")

record MySQLExplainJSON =
  query_block :: QueryBlock

section \<open>The normalized graph\<close>

datatype NodeType =
  Select | Table | Join | Sort | Group | Distinct | Union | Subquery | Temp_table | Buffer

text \<open>
  A node id is the string \<^verbatim>\<open>node-\<close> followed by the value of the counter; the model
  keeps the value of the counter. Such a string is never empty, so an id that is present
  is truthy. \<^verbatim>\<open>isCriticalPath\<close> is \<open>False\<close> while the field is unset. The opaque
  \<^verbatim>\<open>rawData\<close> is left out.
\<close>

record PlanNode =
  node_id :: nat
  node_type :: NodeType
  label :: string
  cost :: jsnum
  rows :: rat
  table :: "string option"
  accessType :: "string option"
  key :: "string option"
  keyParts :: "string list option"
  condition :: "string option"
  extra :: "string list"
  children :: "nat list"
  isCriticalPath :: bool

record Edge =
  source :: nat
  target :: nat

record ParseResult =
  nodes :: "PlanNode list"
  edges :: "Edge list"

section \<open>The Plan Tree Parser\<close>

text \<open>The counter \<^verbatim>\<open>nodeIdCounter\<close> is a global variable of the module: every function
  that allocates an id takes the value of the counter and returns the new one.
  \<^verbatim>\<open>generateId\<close> returns the id and the counter.\<close>

definition generateId :: "nat \<Rightarrow> nat \<times> nat" where
  "generateId nodeIdCounter = (Suc nodeIdCounter, Suc nodeIdCounter)"

definition getExtraInfo :: "TableInfo \<Rightarrow> string list" where
  "getExtraInfo tbl =
     (if using_index tbl = Some True then [''Using index''] else []) @
     (if using_temporary tbl = Some True then [''Using temporary''] else []) @
     (if ti_using_filesort tbl = Some True then [''Using filesort''] else []) @
     (if truthy_str (using_index_condition tbl) then [''Using index condition''] else []) @
     (case ti_message tbl of None \<Rightarrow> [] | Some m \<Rightarrow> if m \<noteq> [] then [m] else [])"

text \<open>\<^verbatim>\<open>a || b || 0\<close> on two optional numbers: the first that is present and not zero.\<close>

definition or_rows :: "rat option \<Rightarrow> rat option \<Rightarrow> rat" where
  "or_rows a b =
     (case a of
        Some x \<Rightarrow> if x \<noteq> 0 then x else (case b of Some y \<Rightarrow> y | None \<Rightarrow> 0)
      | None \<Rightarrow> (case b of Some y \<Rightarrow> y | None \<Rightarrow> 0))"

text \<open>The node \<^verbatim>\<open>parseTable\<close> builds, with the children it has when the function returns.\<close>

definition tableNode :: "nat \<Rightarrow> TableInfo \<Rightarrow> nat list \<Rightarrow> PlanNode" where
  "tableNode nodeId tbl kids =
     \<lparr>node_id = nodeId, node_type = Table,
      label = (if table_name tbl \<noteq> [] then table_name tbl else ''Unknown Table''),
      cost = parseCost (ti_cost_info tbl),
      rows = or_rows (rows_examined_per_scan tbl) (rows_produced_per_join tbl),
      table = Some (table_name tbl), accessType = Some (access_type tbl),
      key = ti_key tbl, keyParts = used_key_parts tbl,
      condition = attached_condition tbl, extra = getExtraInfo tbl,
      children = kids, isCriticalPath = False\<rparr>"

text \<open>A node of an operation: the fields the operations set, the others absent.\<close>

definition opNode ::
  "nat \<Rightarrow> NodeType \<Rightarrow> string \<Rightarrow> jsnum \<Rightarrow> rat \<Rightarrow> string list \<Rightarrow> nat list \<Rightarrow> PlanNode" where
  "opNode nodeId ty lbl c r ex kids =
     \<lparr>node_id = nodeId, node_type = ty, label = lbl, cost = c, rows = r,
      table = None, accessType = None, key = None, keyParts = None, condition = None,
      extra = ex, children = kids, isCriticalPath = False\<rparr>"

definition no_result :: ParseResult where
  "no_result = \<lparr>nodes = [], edges = []\<rparr>"

text \<open>\<^verbatim>\<open>if (parentId) edges.push({ source: nodeId, target: parentId })\<close>.\<close>

definition parent_edge :: "nat \<Rightarrow> nat option \<Rightarrow> Edge list" where
  "parent_edge nodeId parentId =
     (case parentId of None \<Rightarrow> [] | Some p \<Rightarrow> [\<lparr>source = nodeId, target = p\<rparr>])"

text \<open>The tags of an operation with the two flags \<^verbatim>\<open>using_filesort\<close> and
  \<^verbatim>\<open>using_temporary_table\<close>.\<close>

definition op_extra :: "bool \<Rightarrow> bool \<Rightarrow> string list" where
  "op_extra filesort temporary =
     (if filesort then [''Using filesort''] else []) @
     (if temporary then [''Using temporary table''] else [])"

definition joinCost :: "TableInfo list \<Rightarrow> jsnum" where
  "joinCost items = foldl (\<lambda>sum item. jsplus sum (parseCost (ti_cost_info item))) (Num 0) items"

definition joinRows :: "TableInfo list \<Rightarrow> rat" where
  "joinRows items =
     foldl (\<lambda>sum item.
              let r = or_rows (rows_produced_per_join item) (rows_examined_per_scan item)
              in if sum = 0 then r else sum * r) 0 items"

definition allSubqueries :: "QueryBlock \<Rightarrow> QueryBlock list" where
  "allSubqueries block =
     (case subqueries block of None \<Rightarrow> [] | Some qs \<Rightarrow> qs) @
     (case optimized_away_subqueries block of None \<Rightarrow> [] | Some qs \<Rightarrow> qs) @
     (case attached_subqueries block of None \<Rightarrow> [] | Some qs \<Rightarrow> qs)"

text \<open>
  The parser: one function of the model for each function of \<^verbatim>\<open>parser.ts\<close>, and
  \<open>parseTables\<close> and \<open>parseQueryBlocks\<close> for the \<^verbatim>\<open>forEach\<close> loops. A function takes
  the counter first and returns its result with the new counter. A node is built with the
  \<^verbatim>\<open>children\<close> it has when its function returns (the source builds it with none and
  pushes to the list of the object afterwards). The recursion descends into the plan
  tree, so every call is on a smaller tree; the lemmas that follow say so for each field.
\<close>
lemma sz_mat: "materialized_from_subquery t = Some qb \<Longrightarrow> size qb < size t" by (cases t) auto
lemma sz_oo: "ordering_operation b = Some oo \<Longrightarrow> size oo < size b" by (cases b) auto
lemma sz_go: "qb_grouping_operation b = Some g \<Longrightarrow> size g < size b" by (cases b) auto
lemma sz_dr: "duplicates_removal b = Some d \<Longrightarrow> size d < size b" by (cases b) auto
lemma sz_ur: "union_result b = Some u \<Longrightarrow> size u < size b" by (cases b) auto
lemma sz_qnl: "qb_nested_loop b = Some items \<Longrightarrow> size_list size items < size b" by (cases b) auto
lemma sz_qt: "qb_table b = Some t \<Longrightarrow> size t < size b" by (cases b) auto
lemma sz_qq: "qb_query_block b = Some q \<Longrightarrow> size q < size b" by (cases b) auto
lemma sz_subs: "size_list size (allSubqueries b) < size b"
  by (cases b) (auto simp: allSubqueries_def split: option.splits)
lemma sz_subs2: "2 * size_list size (allSubqueries b) < Suc (2 * size b)"
  using sz_subs [of b] by simp
lemma sz_onl: "oo_nested_loop oo = Some items \<Longrightarrow> size_list size items < size oo" by (cases oo) auto
lemma sz_ogo: "oo_grouping_operation oo = Some g \<Longrightarrow> size g < size oo" by (cases oo) auto
lemma sz_ot: "oo_table oo = Some t \<Longrightarrow> size t < size oo" by (cases oo) auto
lemma sz_dnl: "dr_nested_loop d = Some items \<Longrightarrow> size_list size items < size d" by (cases d) auto
lemma sz_dt: "dr_table d = Some t \<Longrightarrow> size t < size d" by (cases d) auto
lemma sz_specs: "query_specifications u = Some specs \<Longrightarrow> size_list size specs < size u" by (cases u) auto
lemma sz_gnl: "go_nested_loop g = Some items \<Longrightarrow> size_list size items < size g" by (cases g) auto
lemma sz_gt: "go_table g = Some t \<Longrightarrow> size t < size g" by (cases g) auto
lemma sz_gb: "go_buffer_result g = Some b \<Longrightarrow> size b < size g" by (cases g) auto
lemma sz_bnl: "br_nested_loop b = Some items \<Longrightarrow> size_list size items < size b" by (cases b) auto
lemma sz_bt: "br_table b = Some t \<Longrightarrow> size t < size b" by (cases b) auto

function (sequential) parseTable :: "nat \<Rightarrow> TableInfo \<Rightarrow> nat option \<Rightarrow> ParseResult \<times> nat"
and parseTables :: "nat \<Rightarrow> TableInfo list \<Rightarrow> nat \<Rightarrow> ParseResult \<times> nat"
and parseNestedLoop :: "nat \<Rightarrow> TableInfo list \<Rightarrow> nat option \<Rightarrow> ParseResult \<times> nat"
and parseQueryBlock :: "nat \<Rightarrow> QueryBlock \<Rightarrow> nat option \<Rightarrow> NodeType \<Rightarrow> ParseResult \<times> nat"
and parseQueryBlocks :: "nat \<Rightarrow> QueryBlock list \<Rightarrow> nat option \<Rightarrow> NodeType \<Rightarrow> ParseResult \<times> nat"
and parseGroupingOperation :: "nat \<Rightarrow> GroupingOperation option \<Rightarrow> nat option \<Rightarrow> ParseResult \<times> nat"
and parseBufferResult :: "nat \<Rightarrow> BufferResult option \<Rightarrow> nat option \<Rightarrow> ParseResult \<times> nat"
where
  "parseTable c tbl parentId =
     (let (nodeId, c1) = generateId c;
          (subResult, c2) =
            (case materialized_from_subquery tbl of
               None \<Rightarrow> (no_result, c1)
             | Some qb \<Rightarrow> parseQueryBlock c1 qb (Some nodeId) Subquery);
          node = tableNode nodeId tbl (map node_id (nodes subResult))
      in (\<lparr>nodes = node # nodes subResult,
           edges = parent_edge nodeId parentId @ edges subResult\<rparr>, c2))"
| "parseTables c [] joinId = (no_result, c)"
| "parseTables c (item # items) joinId =
     (let (tableResult, c1) = parseTable c item (Some joinId);
          (rest, c2) = parseTables c1 items joinId
      in (\<lparr>nodes = nodes tableResult @ nodes rest,
           edges = edges tableResult @ edges rest\<rparr>, c2))"
| "parseNestedLoop c [] parentId = (no_result, c)"
| "parseNestedLoop c [item] parentId = parseTable c item parentId"
| "parseNestedLoop c (item1 # item2 # items) parentId =
     (let (joinId, c1) = generateId c;
          (tableResults, c2) = parseTables c1 (item1 # item2 # items) joinId;
          joinNode = opNode joinId Join ''Nested Loop Join''
                       (joinCost (item1 # item2 # items)) (joinRows (item1 # item2 # items))
                       [] (map node_id (nodes tableResults))
      in (\<lparr>nodes = joinNode # nodes tableResults,
           edges = parent_edge joinId parentId @ edges tableResults\<rparr>, c2))"
| "parseQueryBlock c block parentId blockType =
     (case ordering_operation block of
        Some oo \<Rightarrow>
          (let (sortId, c1) = generateId c;
               (nestedResult, c2) =
                 (case oo_nested_loop oo of
                    None \<Rightarrow> (no_result, c1)
                  | Some items \<Rightarrow> parseNestedLoop c1 items (Some sortId));
               (groupResult, c3) =
                 (case oo_grouping_operation oo of
                    None \<Rightarrow> (no_result, c2)
                  | Some g \<Rightarrow> parseGroupingOperation c2 (Some g) (Some sortId));
               (tableResult, c4) =
                 (case oo_table oo of
                    None \<Rightarrow> (no_result, c3)
                  | Some t \<Rightarrow> parseTable c3 t (Some sortId));
               sortNode = opNode sortId Sort ''ORDER BY'' (parseCost (oo_cost_info oo)) 0
                            (op_extra (oo_using_filesort oo)
                               (oo_using_temporary_table oo = Some True))
                            (map node_id (nodes nestedResult))
           in (\<lparr>nodes = sortNode # nodes nestedResult @ nodes groupResult @ nodes tableResult,
                edges = parent_edge sortId parentId @ edges nestedResult @ edges groupResult
                          @ edges tableResult\<rparr>, c4))
      | None \<Rightarrow>
     (case qb_grouping_operation block of
        Some g \<Rightarrow> parseGroupingOperation c (Some g) parentId
      | None \<Rightarrow>
     (case duplicates_removal block of
        Some d \<Rightarrow>
          (let (distinctId, c1) = generateId c;
               (nestedResult, c2) =
                 (case dr_nested_loop d of
                    None \<Rightarrow> (no_result, c1)
                  | Some items \<Rightarrow> parseNestedLoop c1 items (Some distinctId));
               (tableResult, c3) =
                 (case dr_table d of
                    None \<Rightarrow> (no_result, c2)
                  | Some t \<Rightarrow> parseTable c2 t (Some distinctId));
               distinctNode = opNode distinctId Distinct ''DISTINCT''
                                (parseCost (dr_cost_info d)) 0
                                (op_extra (dr_using_filesort d = Some True)
                                   (dr_using_temporary_table d = Some True)) []
           in (\<lparr>nodes = distinctNode # nodes nestedResult @ nodes tableResult,
                edges = parent_edge distinctId parentId @ edges nestedResult
                          @ edges tableResult\<rparr>, c3))
      | None \<Rightarrow>
     (case union_result block of
        Some u \<Rightarrow>
          (let (unionId, c1) = generateId c;
               (specResults, c2) =
                 (case query_specifications u of
                    None \<Rightarrow> (no_result, c1)
                  | Some specs \<Rightarrow> parseQueryBlocks c1 specs (Some unionId) Select);
               unionNode = opNode unionId Union ''UNION'' (Num 0) 0
                             (if ur_using_temporary_table u then [''Using temporary table'']
                              else []) []
           in (\<lparr>nodes = unionNode # nodes specResults,
                edges = parent_edge unionId parentId @ edges specResults\<rparr>, c2))
      | None \<Rightarrow>
          (let (nestedResult, c1) =
                 (case qb_nested_loop block of
                    None \<Rightarrow> (no_result, c)
                  | Some items \<Rightarrow> parseNestedLoop c items parentId);
               (tableResult, c2) =
                 (case qb_table block of
                    None \<Rightarrow> (no_result, c1)
                  | Some t \<Rightarrow> parseTable c1 t parentId);
               (subResults, c3) = parseQueryBlocks c2 (allSubqueries block) parentId Subquery;
               (nestedBlockResult, c4) =
                 (case qb_query_block block of
                    None \<Rightarrow> (no_result, c3)
                  | Some qb \<Rightarrow> parseQueryBlock c3 qb parentId Select);
               ns = nodes nestedResult @ nodes tableResult @ nodes subResults
                      @ nodes nestedBlockResult;
               es = edges nestedResult @ edges tableResult @ edges subResults
                      @ edges nestedBlockResult
           in if truthy_str (qb_message block) \<and> ns = [] then
                (let (msgId, c5) = generateId c4;
                     msgNode = opNode msgId blockType (case qb_message block of Some m \<Rightarrow> m | None \<Rightarrow> [])
                                 (Num 0) 0 [] []
                 in (\<lparr>nodes = ns @ [msgNode], edges = es @ parent_edge msgId parentId\<rparr>, c5))
              else (\<lparr>nodes = ns, edges = es\<rparr>, c4))))))"
| "parseQueryBlocks c [] parentId blockType = (no_result, c)"
| "parseQueryBlocks c (qb # qbs) parentId blockType =
     (let (r, c1) = parseQueryBlock c qb parentId blockType;
          (rest, c2) = parseQueryBlocks c1 qbs parentId blockType
      in (\<lparr>nodes = nodes r @ nodes rest, edges = edges r @ edges rest\<rparr>, c2))"
| "parseGroupingOperation c None parentId = (no_result, c)"
| "parseGroupingOperation c (Some groupOp) parentId =
     (let (groupId, c1) = generateId c;
          (nestedResult, c2) =
            (case go_nested_loop groupOp of
               None \<Rightarrow> (no_result, c1)
             | Some items \<Rightarrow> parseNestedLoop c1 items (Some groupId));
          (tableResult, c3) =
            (case go_table groupOp of
               None \<Rightarrow> (no_result, c2)
             | Some t \<Rightarrow> parseTable c2 t (Some groupId));
          (bufferResult, c4) =
            (case go_buffer_result groupOp of
               None \<Rightarrow> (no_result, c3)
             | Some b \<Rightarrow> parseBufferResult c3 (Some b) (Some groupId));
          groupNode = opNode groupId Group ''GROUP BY'' (parseCost (go_cost_info groupOp)) 0
                        (op_extra (go_using_filesort groupOp = Some True)
                           (go_using_temporary_table groupOp = Some True)) []
      in (\<lparr>nodes = groupNode # nodes nestedResult @ nodes tableResult @ nodes bufferResult,
           edges = parent_edge groupId parentId @ edges nestedResult @ edges tableResult
                     @ edges bufferResult\<rparr>, c4))"
| "parseBufferResult c None parentId = (no_result, c)"
| "parseBufferResult c (Some buf) parentId =
     (let (bufferId, c1) = generateId c;
          (nestedResult, c2) =
            (case br_nested_loop buf of
               None \<Rightarrow> (no_result, c1)
             | Some items \<Rightarrow> parseNestedLoop c1 items (Some bufferId));
          (tableResult, c3) =
            (case br_table buf of
               None \<Rightarrow> (no_result, c2)
             | Some t \<Rightarrow> parseTable c2 t (Some bufferId));
          bufferNode = opNode bufferId Buffer ''Buffer Result'' (Num 0) 0
                         (if br_using_temporary_table buf = Some True
                          then [''Using temporary table''] else []) []
      in (\<lparr>nodes = bufferNode # nodes nestedResult @ nodes tableResult,
           edges = parent_edge bufferId parentId @ edges nestedResult @ edges tableResult\<rparr>, c3))"

  by pat_completeness auto

termination
  apply (relation "measure (case_sum
     (case_sum (\<lambda>(c, t, p). 2 * size t + 1)
        (case_sum (\<lambda>(c, ts, j). 2 * size_list size ts) (\<lambda>(c, ts, p). 2 * size_list size ts + 1)))
     (case_sum
        (case_sum (\<lambda>(c, b, p, ty). 2 * size b + 1) (\<lambda>(c, bs, p, ty). 2 * size_list size bs))
        (case_sum (\<lambda>(c, g, p). 2 * size_option size g) (\<lambda>(c, b, p). 2 * size_option size b))))")
  apply simp
  apply (auto simp: sz_subs2 dest!: sz_mat sz_oo sz_go sz_dr sz_ur sz_qnl sz_qt sz_qq sz_onl sz_ogo sz_ot sz_dnl sz_dt sz_specs sz_gnl sz_gt sz_gb sz_bnl sz_bt)
  done

section \<open>The Critical Path Annotator\<close>

text \<open>
  \<^verbatim>\<open>Array.prototype.sort\<close> with a comparator: a stable sort, where \<^verbatim>\<open>cmp(a, b) > 0\<close>
  puts \<open>b\<close> before \<open>a\<close> and every other result (negative, zero, NaN) keeps \<open>a\<close>
  before \<open>b\<close>. The model inserts the elements from the right, each before the elements
  that followed it, and so keeps the order of elements that compare equal.
\<close>

definition positive :: "jsnum \<Rightarrow> bool" where
  "positive v = jsless (Num 0) v"

fun sort_insert :: "('a \<Rightarrow> 'a \<Rightarrow> jsnum) \<Rightarrow> 'a \<Rightarrow> 'a list \<Rightarrow> 'a list" where
  "sort_insert cmp a [] = [a]"
| "sort_insert cmp a (b # bs) =
     (if positive (cmp a b) then b # sort_insert cmp a bs else a # b # bs)"

definition Array_sort :: "('a \<Rightarrow> 'a \<Rightarrow> jsnum) \<Rightarrow> 'a list \<Rightarrow> 'a list" where
  "Array_sort cmp xs = foldr (sort_insert cmp) xs []"

text \<open>\<^verbatim>\<open>nodeCosts.get(id) || 0\<close>, and the comparator \<^verbatim>\<open>(a, b) => b.cost - a.cost\<close> on
  the pairs of an id and a cost.\<close>

definition get_or_zero :: "(nat \<rightharpoonup> jsnum) \<Rightarrow> nat \<Rightarrow> jsnum" where
  "get_or_zero nodeCosts i = (case nodeCosts i of None \<Rightarrow> Num 0 | Some v \<Rightarrow> or_zero v)"

definition by_cost_desc :: "nat \<times> jsnum \<Rightarrow> nat \<times> jsnum \<Rightarrow> jsnum" where
  "by_cost_desc a b = jsminus (snd b) (snd a)"

text \<open>\<^verbatim>\<open>nodes.find(n => n.id === nodeId)\<close>, and the assignment
  \<^verbatim>\<open>node.isCriticalPath = true\<close> to the node it finds.\<close>

definition find_node :: "PlanNode list \<Rightarrow> nat \<Rightarrow> PlanNode option" where
  "find_node ns nodeId = find (\<lambda>n. node_id n = nodeId) ns"

fun mark_node :: "nat \<Rightarrow> PlanNode list \<Rightarrow> PlanNode list" where
  "mark_node nodeId [] = []"
| "mark_node nodeId (n # ns) =
     (if node_id n = nodeId then n\<lparr>isCriticalPath := True\<rparr> # ns else n # mark_node nodeId ns)"

text \<open>
  The two closures of \<^verbatim>\<open>markCriticalPath\<close> are recursive over the \<^verbatim>\<open>children\<close>
  lists, which nothing in the function keeps from being cyclic: they take fuel, the depth
  of recursion they may use, and return \<open>None\<close> when it runs out.
  \<open>calculateChildCosts\<close> is \<^verbatim>\<open>node.children.map(calculateCumulativeCost)\<close>. The map
  \<^verbatim>\<open>nodeCosts\<close> is threaded through the calls.
\<close>

fun calculateCumulativeCost ::
  "nat \<Rightarrow> PlanNode list \<Rightarrow> (nat \<rightharpoonup> jsnum) \<Rightarrow> nat \<Rightarrow> (jsnum \<times> (nat \<rightharpoonup> jsnum)) option"
and calculateChildCosts ::
  "nat \<Rightarrow> PlanNode list \<Rightarrow> (nat \<rightharpoonup> jsnum) \<Rightarrow> nat list \<Rightarrow> (jsnum list \<times> (nat \<rightharpoonup> jsnum)) option"
where
  "calculateCumulativeCost 0 ns nodeCosts nodeId = None"
| "calculateCumulativeCost (Suc fuel) ns nodeCosts nodeId =
     (case find_node ns nodeId of
        None \<Rightarrow> Some (Num 0, nodeCosts)
      | Some node \<Rightarrow>
          (case calculateChildCosts fuel ns nodeCosts (children node) of
             None \<Rightarrow> None
           | Some (childCosts, nodeCosts1) \<Rightarrow>
               (let maxChildCost = Math_max (Num 0 # childCosts);
                    totalCost = jsplus (cost node) maxChildCost
                in Some (totalCost, nodeCosts1(nodeId \<mapsto> totalCost)))))"
| "calculateChildCosts fuel ns nodeCosts [] = Some ([], nodeCosts)"
| "calculateChildCosts fuel ns nodeCosts (childId # childIds) =
     (case calculateCumulativeCost fuel ns nodeCosts childId of
        None \<Rightarrow> None
      | Some (v, nodeCosts1) \<Rightarrow>
          (case calculateChildCosts fuel ns nodeCosts1 childIds of
             None \<Rightarrow> None
           | Some (vs, nodeCosts2) \<Rightarrow> Some (v # vs, nodeCosts2)))"

text \<open>\<^verbatim>\<open>childCostPairs[0]\<close> is read of a list that has an element, since the node has
  a child; the model has no result for the empty list.\<close>

fun markPath :: "nat \<Rightarrow> (nat \<rightharpoonup> jsnum) \<Rightarrow> PlanNode list \<Rightarrow> nat \<Rightarrow> PlanNode list option" where
  "markPath 0 nodeCosts ns nodeId = None"
| "markPath (Suc fuel) nodeCosts ns nodeId =
     (case find_node ns nodeId of
        None \<Rightarrow> Some ns
      | Some node \<Rightarrow>
          (let ns1 = mark_node nodeId ns in
           if children node \<noteq> [] then
             (let childCostPairs =
                    map (\<lambda>childId. (childId, get_or_zero nodeCosts childId)) (children node)
              in case Array_sort by_cost_desc childCostPairs of
                   [] \<Rightarrow> None
                 | first # _ \<Rightarrow> markPath fuel nodeCosts ns1 (fst first))
           else Some ns1))"

definition rootNodes :: "PlanNode list \<Rightarrow> PlanNode list" where
  "rootNodes ns = filter (\<lambda>n. node_id n \<notin> set (concat (map children ns))) ns"

definition markCriticalPath :: "nat \<Rightarrow> PlanNode list \<Rightarrow> PlanNode list option" where
  "markCriticalPath fuel ns =
     (if ns = [] then Some ns
      else
        (case calculateChildCosts fuel ns Map.empty (map node_id (rootNodes ns)) of
           None \<Rightarrow> None
         | Some (_, nodeCosts) \<Rightarrow>
             (let rootCosts = map (\<lambda>n. (node_id n, get_or_zero nodeCosts (node_id n)))
                                (rootNodes ns)
              in case Array_sort by_cost_desc rootCosts of
                   [] \<Rightarrow> Some ns
                 | first # _ \<Rightarrow> markPath fuel nodeCosts ns (fst first))))"

section \<open>The Layout Engine\<close>

text \<open>The nodes handed to the rendering layer: the id, the position and the data (the
  plan node and \<^verbatim>\<open>maxCost\<close>). Coordinates are exact rationals.\<close>

record FlowNode =
  flow_id :: nat
  pos_x :: rat
  pos_y :: rat
  data :: PlanNode
  maxCost :: jsnum

record FlowEdge =
  edge_index :: nat
  edge_source :: nat
  edge_target :: nat
  edge_rows :: rat
  edge_isCriticalPath :: bool

definition nodeWidth :: rat where "nodeWidth = 280"
definition nodeHeight :: rat where "nodeHeight = 120"
definition horizontalGap :: rat where "horizontalGap = 60"
definition verticalGap :: rat where "verticalGap = 80"

text \<open>The two maps built from the edges: \<^verbatim>\<open>parentMap.set(source, target)\<close> and the
  push of the source to the list of the target in \<^verbatim>\<open>childrenMap\<close>.\<close>

definition parentMap_of :: "Edge list \<Rightarrow> (nat \<rightharpoonup> nat)" where
  "parentMap_of es = foldl (\<lambda>m e. m(source e \<mapsto> target e)) Map.empty es"

definition childrenMap_of :: "Edge list \<Rightarrow> (nat \<rightharpoonup> nat list)" where
  "childrenMap_of es =
     foldl (\<lambda>m e. m(target e \<mapsto> (case m (target e) of None \<Rightarrow> [] | Some cs \<Rightarrow> cs) @ [source e]))
       Map.empty es"

text \<open>\<^verbatim>\<open>childrenMap.get(nodeId) || []\<close> and \<^verbatim>\<open>subtreeWidths.get(childId) || nodeWidth\<close>.\<close>

definition children_of :: "(nat \<rightharpoonup> nat list) \<Rightarrow> nat \<Rightarrow> nat list" where
  "children_of childrenMap nodeId = (case childrenMap nodeId of None \<Rightarrow> [] | Some cs \<Rightarrow> cs)"

definition width_of :: "(nat \<rightharpoonup> rat) \<Rightarrow> nat \<Rightarrow> rat" where
  "width_of subtreeWidths nodeId =
     (case subtreeWidths nodeId of None \<Rightarrow> nodeWidth | Some w \<Rightarrow> if w \<noteq> 0 then w else nodeWidth)"

text \<open>\<^verbatim>\<open>calcWidth\<close> recurses over \<^verbatim>\<open>childrenMap\<close> with no guard against a cycle: it
  takes fuel. \<open>calcWidths\<close> is the \<^verbatim>\<open>reduce\<close> over the children, from the sum so far.\<close>

fun calcWidth ::
  "nat \<Rightarrow> (nat \<rightharpoonup> nat list) \<Rightarrow> (nat \<rightharpoonup> rat) \<Rightarrow> nat \<Rightarrow> (rat \<times> (nat \<rightharpoonup> rat)) option"
and calcWidths ::
  "nat \<Rightarrow> (nat \<rightharpoonup> nat list) \<Rightarrow> (nat \<rightharpoonup> rat) \<Rightarrow> rat \<Rightarrow> nat list \<Rightarrow> (rat \<times> (nat \<rightharpoonup> rat)) option"
where
  "calcWidth 0 childrenMap subtreeWidths nodeId = None"
| "calcWidth (Suc fuel) childrenMap subtreeWidths nodeId =
     (if children_of childrenMap nodeId = [] then
        Some (nodeWidth, subtreeWidths(nodeId \<mapsto> nodeWidth))
      else
        (case calcWidths fuel childrenMap subtreeWidths (- horizontalGap)
                (children_of childrenMap nodeId) of
           None \<Rightarrow> None
         | Some (totalChildWidth, subtreeWidths1) \<Rightarrow>
             (let width = max nodeWidth totalChildWidth
              in Some (width, subtreeWidths1(nodeId \<mapsto> width)))))"
| "calcWidths fuel childrenMap subtreeWidths acc [] = Some (acc, subtreeWidths)"
| "calcWidths fuel childrenMap subtreeWidths acc (childId # childIds) =
     (case calcWidth fuel childrenMap subtreeWidths childId of
        None \<Rightarrow> None
      | Some (w, subtreeWidths1) \<Rightarrow>
          calcWidths fuel childrenMap subtreeWidths1 (acc + w + horizontalGap) childIds)"

text \<open>\<^verbatim>\<open>roots.forEach(root => calcWidth(root.id))\<close>.\<close>

fun calcRootWidths ::
  "nat \<Rightarrow> (nat \<rightharpoonup> nat list) \<Rightarrow> (nat \<rightharpoonup> rat) \<Rightarrow> nat list \<Rightarrow> (nat \<rightharpoonup> rat) option" where
  "calcRootWidths fuel childrenMap subtreeWidths [] = Some subtreeWidths"
| "calcRootWidths fuel childrenMap subtreeWidths (r # rs) =
     (case calcWidth fuel childrenMap subtreeWidths r of
        None \<Rightarrow> None
      | Some (_, subtreeWidths1) \<Rightarrow> calcRootWidths fuel childrenMap subtreeWidths1 rs)"

text \<open>\<^verbatim>\<open>node.position = { x, y }\<close> on the node that \<^verbatim>\<open>nodes.find\<close> returns.\<close>

fun set_position :: "nat \<Rightarrow> rat \<Rightarrow> rat \<Rightarrow> FlowNode list \<Rightarrow> FlowNode list" where
  "set_position nodeId px py [] = []"
| "set_position nodeId px py (n # ns) =
     (if flow_id n = nodeId then n\<lparr>pos_x := px, pos_y := py\<rparr> # ns
      else n # set_position nodeId px py ns)"

text \<open>
  \<^verbatim>\<open>positionNode\<close>, on the state of the set \<^verbatim>\<open>positioned\<close> and the nodes, and
  \<open>positionChildren\<close>, its \<^verbatim>\<open>forEach\<close> over the children with the running \<^verbatim>\<open>childX\<close>.
  The depth of the recursion is bounded by fuel here too.
\<close>

fun positionNode ::
  "nat \<Rightarrow> (nat \<rightharpoonup> nat list) \<Rightarrow> (nat \<rightharpoonup> rat) \<Rightarrow> nat set \<times> FlowNode list \<Rightarrow> nat \<Rightarrow> rat \<Rightarrow> rat
     \<Rightarrow> (nat set \<times> FlowNode list) option"
and positionChildren ::
  "nat \<Rightarrow> (nat \<rightharpoonup> nat list) \<Rightarrow> (nat \<rightharpoonup> rat) \<Rightarrow> nat set \<times> FlowNode list \<Rightarrow> nat list \<Rightarrow> rat \<Rightarrow> rat
     \<Rightarrow> (nat set \<times> FlowNode list) option"
where
  "positionNode 0 childrenMap subtreeWidths st nodeId px py = None"
| "positionNode (Suc fuel) childrenMap subtreeWidths st nodeId px py =
     (if nodeId \<in> fst st then Some st
      else
        (let positioned = insert nodeId (fst st) in
         case find (\<lambda>n. flow_id n = nodeId) (snd st) of
           None \<Rightarrow> Some (positioned, snd st)
         | Some node \<Rightarrow>
             (let ns = set_position nodeId px py (snd st);
                  cs = children_of childrenMap nodeId
              in if cs = [] then Some (positioned, ns)
                 else
                   (let totalChildWidth =
                          foldl (\<lambda>sum childId. sum + width_of subtreeWidths childId + horizontalGap)
                            (- horizontalGap) cs;
                        childX = px + (nodeWidth - totalChildWidth) / 2
                    in positionChildren fuel childrenMap subtreeWidths (positioned, ns) cs childX
                         (py + nodeHeight + verticalGap)))))"
| "positionChildren fuel childrenMap subtreeWidths st [] childX py = Some st"
| "positionChildren fuel childrenMap subtreeWidths st (childId # childIds) childX py =
     (let childWidth = width_of subtreeWidths childId;
          childCenterX = childX + childWidth / 2 - nodeWidth / 2
      in case positionNode fuel childrenMap subtreeWidths st childId childCenterX py of
           None \<Rightarrow> None
         | Some st1 \<Rightarrow>
             positionChildren fuel childrenMap subtreeWidths st1 childIds
               (childX + childWidth + horizontalGap) py)"

text \<open>The loop over the roots, with the running \<^verbatim>\<open>rootX\<close>, which it returns.\<close>

fun positionRoots ::
  "nat \<Rightarrow> (nat \<rightharpoonup> nat list) \<Rightarrow> (nat \<rightharpoonup> rat) \<Rightarrow> nat set \<times> FlowNode list \<Rightarrow> nat list \<Rightarrow> rat
     \<Rightarrow> ((nat set \<times> FlowNode list) \<times> rat) option" where
  "positionRoots fuel childrenMap subtreeWidths st [] rootX = Some (st, rootX)"
| "positionRoots fuel childrenMap subtreeWidths st (r # rs) rootX =
     (case positionNode fuel childrenMap subtreeWidths st r rootX 0 of
        None \<Rightarrow> None
      | Some st1 \<Rightarrow>
          positionRoots fuel childrenMap subtreeWidths st1 rs
            (rootX + width_of subtreeWidths r + horizontalGap * 2))"

text \<open>The last loop stacks the nodes that were not reached.\<close>

fun placeOrphans :: "nat set \<Rightarrow> rat \<Rightarrow> rat \<Rightarrow> FlowNode list \<Rightarrow> FlowNode list" where
  "placeOrphans positioned rootX orphanY [] = []"
| "placeOrphans positioned rootX orphanY (n # ns) =
     (if flow_id n \<notin> positioned
      then n\<lparr>pos_x := rootX, pos_y := orphanY\<rparr>
             # placeOrphans positioned rootX (orphanY + nodeHeight + verticalGap) ns
      else n # placeOrphans positioned rootX orphanY ns)"

definition layoutRoots :: "FlowNode list \<Rightarrow> Edge list \<Rightarrow> nat list" where
  "layoutRoots ns es = map flow_id (filter (\<lambda>n. parentMap_of es (flow_id n) = None) ns)"

definition applyLayout :: "nat \<Rightarrow> FlowNode list \<Rightarrow> Edge list \<Rightarrow> FlowNode list option" where
  "applyLayout fuel ns es =
     (let childrenMap = childrenMap_of es;
          roots = layoutRoots ns es
      in case calcRootWidths fuel childrenMap Map.empty roots of
           None \<Rightarrow> None
         | Some subtreeWidths \<Rightarrow>
             (case positionRoots fuel childrenMap subtreeWidths ({}, ns) roots 0 of
                None \<Rightarrow> None
              | Some ((positioned, ns1), rootX) \<Rightarrow> Some (placeOrphans positioned rootX 0 ns1)))"

section \<open>The entry points\<close>

record ParseOutput =
  out_nodes :: "FlowNode list"
  out_edges :: "FlowEdge list"
  planNodes :: "PlanNode list"
  totalCost :: jsnum

text \<open>The edges as returned: \<^verbatim>\<open>result.edges.map((edge, index) => ...)\<close>.\<close>

definition flowEdge :: "PlanNode list \<Rightarrow> Edge \<Rightarrow> nat \<Rightarrow> FlowEdge" where
  "flowEdge ns e index =
     (let sourceNode = find_node ns (source e)
      in \<lparr>edge_index = index, edge_source = source e, edge_target = target e,
          edge_rows = (case sourceNode of None \<Rightarrow> 0 | Some n \<Rightarrow> rows n),
          edge_isCriticalPath = (case sourceNode of None \<Rightarrow> False | Some n \<Rightarrow> isCriticalPath n)\<rparr>)"

text \<open>
  \<^verbatim>\<open>parseExplainJSON\<close> takes the value the global counter has when it is called, which
  it overwrites with 0, and returns the value it leaves in the counter with its result.
  Its first argument is the fuel of the recursive closures it runs.
\<close>

definition parseExplainJSON :: "nat \<Rightarrow> nat \<Rightarrow> MySQLExplainJSON \<Rightarrow> ParseOutput option \<times> nat" where
  "parseExplainJSON fuel nodeIdCounter json =
     (let (result, c) = parseQueryBlock 0 (query_block json) None Select;
          out =
            (case markCriticalPath fuel (nodes result) of
               None \<Rightarrow> None
             | Some pns \<Rightarrow>
                 (let total = foldl (\<lambda>sum node. jsplus sum (cost node)) (Num 0) pns;
                      mc = Math_max (map cost pns @ [Num 1]);
                      ns = map (\<lambda>node. \<lparr>flow_id = node_id node, pos_x = 0, pos_y = 0,
                                          data = node, maxCost = mc\<rparr>) pns
                  in case applyLayout fuel ns (edges result) of
                       None \<Rightarrow> None
                     | Some ns1 \<Rightarrow>
                         Some \<lparr>out_nodes = ns1,
                               out_edges = map (\<lambda>(e, index). flowEdge pns e index)
                                             (zip (edges result) [0 ..< length (edges result)]),
                               planNodes = pns, totalCost = total\<rparr>))
      in (out, c))"

section \<open>Validation\<close>

text \<open>
  A JSON value, as \<^verbatim>\<open>JSON.parse\<close> returns it. \<^verbatim>\<open>JSON.parse\<close> itself is a builtin: the
  model takes it as a function from the text to the message of the error it throws
  (\<open>Inl\<close>) or the value it returns (\<open>Inr\<close>).
\<close>

datatype json =
  JNull | JBool bool | JNumber rat | JString string | JArray "json list"
  | JObject "(string \<times> json) list"






section \<open>Invariants of the parser\<close>

text \<open>The equations of the parser are unfolded by hand in the proofs.\<close>

declare parseTable.simps [simp del] parseQueryBlock.simps [simp del]
  parseGroupingOperation.simps [simp del] parseBufferResult.simps [simp del]
  parseNestedLoop.simps [simp del] parseTables.simps [simp del] parseQueryBlocks.simps [simp del]

text \<open>
  The invariant of a call that starts with the counter at \<open>c\<close> and the attachment
  point \<open>p\<close>, on its result and the counter it returns: the ids of the nodes are the
  values the counter took, in order; no node is marked; the children of a node have
  greater ids, all allocated by the call; every node is the source of one edge at most;
  an edge goes from a node of the call to a node allocated before it, which is a node of
  the call or the attachment point.
\<close>

definition plan_inv :: "nat \<Rightarrow> nat option \<Rightarrow> ParseResult \<times> nat \<Rightarrow> bool" where
  "plan_inv c p rc =
     (c \<le> snd rc \<and> map node_id (nodes (fst rc)) = [Suc c ..< Suc (snd rc)] \<and>
      (\<forall>n\<in>set (nodes (fst rc)). \<not> isCriticalPath n \<and>
          (\<forall>k\<in>set (children n). node_id n < k \<and> k \<le> snd rc)) \<and>
      distinct (map source (edges (fst rc))) \<and>
      (\<forall>e\<in>set (edges (fst rc)). c < source e \<and> source e \<le> snd rc \<and> target e < source e \<and>
          (c < target e \<or> Some (target e) = p)))"

lemma plan_inv_empty: "plan_inv c p (no_result, c)"
  by (simp add: plan_inv_def no_result_def)

lemma plan_inv_append:
  assumes "plan_inv c p (r1, c1)" and "plan_inv c1 p (r2, c2)"
  shows "plan_inv c p (\<lparr>nodes = nodes r1 @ nodes r2, edges = edges r1 @ edges r2\<rparr>, c2)"
proof -
  from assms have le: "c \<le> c1" "c1 \<le> c2" by (simp_all add: plan_inv_def)
  have ids: "map node_id (nodes r1 @ nodes r2) = [Suc c ..< Suc c2]"
  proof -
    have "[Suc c ..< Suc c2] = [Suc c ..< Suc c1] @ [Suc c1 ..< Suc c2]"
      using le by (metis Suc_le_mono upt_add_eq_append le_Suc_ex)
    with assms show ?thesis by (simp add: plan_inv_def)
  qed
  have kids: "\<forall>n\<in>set (nodes r1 @ nodes r2). \<not> isCriticalPath n \<and>
          (\<forall>k\<in>set (children n). node_id n < k \<and> k \<le> c2)"
    using assms le by (fastforce simp: plan_inv_def)
  have src: "distinct (map source (edges r1 @ edges r2))"
    using assms le by (fastforce simp: plan_inv_def)
  have es: "\<forall>e\<in>set (edges r1 @ edges r2). c < source e \<and> source e \<le> c2 \<and> target e < source e \<and>
          (c < target e \<or> Some (target e) = p)"
    using assms le by (fastforce simp: plan_inv_def)
  from le ids kids src es show ?thesis by (simp add: plan_inv_def)
qed

lemma plan_inv_node:
  assumes sub: "plan_inv (Suc c) (Some (Suc c)) (r, c')"
    and n: "node_id n = Suc c" "\<not> isCriticalPath n" "set (children n) \<subseteq> set (map node_id (nodes r))"
    and p: "\<And>q. p = Some q \<Longrightarrow> q \<le> c"
  shows "plan_inv c p (\<lparr>nodes = n # nodes r, edges = parent_edge (Suc c) p @ edges r\<rparr>, c')"
proof -
  from sub have le: "Suc c \<le> c'" and ids: "map node_id (nodes r) = [Suc (Suc c) ..< Suc c']"
    by (simp_all add: plan_inv_def)
  have ids': "map node_id (n # nodes r) = [Suc c ..< Suc c']"
    using n(1) ids le by (simp add: upt_conv_Cons)
  have kn: "\<forall>k\<in>set (children n). node_id n < k \<and> k \<le> c'"
    using n(1,3) ids by auto
  have kids: "\<forall>m\<in>set (n # nodes r). \<not> isCriticalPath m \<and>
          (\<forall>k\<in>set (children m). node_id m < k \<and> k \<le> c')"
    using sub kn n(2) by (simp add: plan_inv_def)
  have pe: "\<forall>e\<in>set (parent_edge (Suc c) p). source e = Suc c \<and> target e < source e \<and> Some (target e) = p"
    using p by (auto simp: parent_edge_def split: option.splits)
  have src: "distinct (map source (parent_edge (Suc c) p @ edges r))"
    using sub by (fastforce simp: plan_inv_def parent_edge_def split: option.splits)
  have es: "\<forall>e\<in>set (parent_edge (Suc c) p @ edges r). c < source e \<and> source e \<le> c' \<and>
          target e < source e \<and> (c < target e \<or> Some (target e) = p)"
  proof
    fix e assume "e \<in> set (parent_edge (Suc c) p @ edges r)"
    then consider "e \<in> set (parent_edge (Suc c) p)" | "e \<in> set (edges r)" by auto
    then show "c < source e \<and> source e \<le> c' \<and> target e < source e \<and> (c < target e \<or> Some (target e) = p)"
    proof cases
      case 1 with pe le show ?thesis by auto
    next
      case 2
      with sub have "Suc c < source e \<and> source e \<le> c' \<and> target e < source e \<and>
          (Suc c < target e \<or> Some (target e) = Some (Suc c))" by (simp add: plan_inv_def)
      then show ?thesis by auto
    qed
  qed
  from le ids' kids src es show ?thesis by (simp add: plan_inv_def)
qed


text \<open>The attachment point of a call was allocated before the call.\<close>

definition parent_ok :: "nat option \<Rightarrow> nat \<Rightarrow> bool" where
  "parent_ok p c = (case p of None \<Rightarrow> True | Some q \<Rightarrow> q \<le> c)"

lemma plan_inv_node':
  assumes sub: "plan_inv (Suc c) (Some (Suc c)) s"
    and n: "node_id n = Suc c" "\<not> isCriticalPath n" "set (children n) \<subseteq> set (map node_id (nodes (fst s)))"
    and p: "parent_ok p c"
  shows "plan_inv c p (\<lparr>nodes = n # nodes (fst s), edges = parent_edge (Suc c) p @ edges (fst s)\<rparr>, snd s)"
proof -
  have "\<And>q. p = Some q \<Longrightarrow> q \<le> c" using p by (simp add: parent_ok_def)
  with plan_inv_node [of c "fst s" "snd s" n p] sub n show ?thesis by simp
qed

lemma plan_inv_append':
  assumes "plan_inv c p s1" and "plan_inv (snd s1) p s2"
  shows "plan_inv c p (\<lparr>nodes = nodes (fst s1) @ nodes (fst s2), edges = edges (fst s1) @ edges (fst s2)\<rparr>, snd s2)"
  using plan_inv_append [of c p "fst s1" "snd s1" "fst s2" "snd s2"] assms by simp

lemma plan_inv_le: "plan_inv c p s \<Longrightarrow> c \<le> snd s"
  by (simp add: plan_inv_def)

lemma parent_ok_mono: "parent_ok p c \<Longrightarrow> c \<le> c' \<Longrightarrow> parent_ok p c'"
  by (auto simp: parent_ok_def split: option.splits)

lemma parent_ok_Suc [simp]: "parent_ok (Some (Suc c)) (Suc c)"
  by (simp add: parent_ok_def)

lemma generateId_eq: "(Suc c, Suc c) = generateId c"
  by (simp add: generateId_def)

lemma plan_inv_opt:
  "(\<And>v. x = Some v \<Longrightarrow> plan_inv c p (f v)) \<Longrightarrow>
   plan_inv c p (case x of None \<Rightarrow> (no_result, c) | Some v \<Rightarrow> f v)"
  by (cases x) (simp_all add: plan_inv_empty)

lemma plan_inv_nil:
  assumes "plan_inv c p s" and "nodes (fst s) = []"
  shows "snd s = c" and "edges (fst s) = []"
proof -
  from assms have "[Suc c ..< Suc (snd s)] = []" and "c \<le> snd s"
    by (simp_all add: plan_inv_def)
  then show c: "snd s = c" by (auto simp del: upt_Suc)
  from assms(1) have "\<forall>e\<in>set (edges (fst s)). c < source e \<and> source e \<le> snd s"
    by (simp add: plan_inv_def)
  with c have "\<And>e. e \<in> set (edges (fst s)) \<Longrightarrow> False" by fastforce
  then show "edges (fst s) = []" by (cases "edges (fst s)") auto
qed

lemma parent_ok_after: "plan_inv (Suc c) p s \<Longrightarrow> parent_ok (Some (Suc c)) (snd s)"
  by (simp add: plan_inv_def parent_ok_def)

lemma parser_inv:
  "parent_ok p1 c1 \<Longrightarrow> plan_inv c1 p1 (parseTable c1 tbl p1)"
  "parent_ok (Some j) c2 \<Longrightarrow> plan_inv c2 (Some j) (parseTables c2 items2 j)"
  "parent_ok p3 c3 \<Longrightarrow> plan_inv c3 p3 (parseNestedLoop c3 items3 p3)"
  "parent_ok p4 c4 \<Longrightarrow> plan_inv c4 p4 (parseQueryBlock c4 block p4 bt4)"
  "parent_ok p5 c5 \<Longrightarrow> plan_inv c5 p5 (parseQueryBlocks c5 blocks p5 bt5)"
  "parent_ok p6 c6 \<Longrightarrow> plan_inv c6 p6 (parseGroupingOperation c6 g p6)"
  "parent_ok p7 c7 \<Longrightarrow> plan_inv c7 p7 (parseBufferResult c7 b p7)"
proof (induction c1 tbl p1 and c2 items2 j and c3 items3 p3 and c4 block p4 bt4
         and c5 blocks p5 bt5 and c6 g p6 and c7 b p7
       rule: parseTable_parseTables_parseNestedLoop_parseQueryBlock_parseQueryBlocks_parseGroupingOperation_parseBufferResult.induct)
  case (1 c tbl parentId)
  let ?sub = "case materialized_from_subquery tbl of None \<Rightarrow> (no_result, Suc c)
              | Some qb \<Rightarrow> parseQueryBlock (Suc c) qb (Some (Suc c)) Subquery"
  have sub: "plan_inv (Suc c) (Some (Suc c)) ?sub"
  proof (cases "materialized_from_subquery tbl")
    case None
    then show ?thesis by (simp add: plan_inv_empty)
  next
    case (Some qb)
    from "1.IH" [OF refl generateId_eq Some] Some show ?thesis by simp
  qed
  have eq: "parseTable c tbl parentId =
      (\<lparr>nodes = tableNode (Suc c) tbl (map node_id (nodes (fst ?sub))) # nodes (fst ?sub),
        edges = parent_edge (Suc c) parentId @ edges (fst ?sub)\<rparr>, snd ?sub)"
    by (simp add: parseTable.simps generateId_def split_beta Let_def cong: option.case_cong)
  show ?case unfolding eq
    by (rule plan_inv_node' [OF sub]) (simp_all add: tableNode_def "1.prems")
next
  case (2 c joinId)
  show ?case by (simp add: parseTables.simps plan_inv_empty)
next
  case (3 c item items joinId)
  let ?s1 = "parseTable c item (Some joinId)"
  let ?s2 = "parseTables (snd ?s1) items joinId"
  have i1: "plan_inv c (Some joinId) ?s1" using "3.IH"(1) "3.prems" by simp
  have ok: "parent_ok (Some joinId) (snd ?s1)"
    using parent_ok_mono [OF "3.prems" plan_inv_le [OF i1]] .
  have i2: "plan_inv (snd ?s1) (Some joinId) ?s2"
    using "3.IH"(2) [OF refl prod.collapse ok] .
  have eq: "parseTables c (item # items) joinId =
      (\<lparr>nodes = nodes (fst ?s1) @ nodes (fst ?s2), edges = edges (fst ?s1) @ edges (fst ?s2)\<rparr>, snd ?s2)"
    by (simp add: parseTables.simps split_beta Let_def cong: option.case_cong)
  show ?case unfolding eq by (rule plan_inv_append' [OF i1 i2])
next
  case (4 c parentId)
  show ?case by (simp add: parseNestedLoop.simps plan_inv_empty)
next
  case (5 c item parentId)
  then show ?case by (simp add: parseNestedLoop.simps)
next
  case (6 c item1 item2 items parentId)
  let ?s = "parseTables (Suc c) (item1 # item2 # items) (Suc c)"
  have sub: "plan_inv (Suc c) (Some (Suc c)) ?s"
    using "6.IH" [OF refl generateId_eq] by simp
  have eq: "parseNestedLoop c (item1 # item2 # items) parentId =
      (\<lparr>nodes = opNode (Suc c) Join ''Nested Loop Join'' (joinCost (item1 # item2 # items))
                  (joinRows (item1 # item2 # items)) [] (map node_id (nodes (fst ?s))) # nodes (fst ?s),
        edges = parent_edge (Suc c) parentId @ edges (fst ?s)\<rparr>, snd ?s)"
    by (simp add: parseNestedLoop.simps generateId_def split_beta Let_def cong: option.case_cong)
  show ?case unfolding eq
    by (rule plan_inv_node' [OF sub]) (simp_all add: opNode_def "6.prems")
next
  case (7 c block parentId blockType)
  note ok = "7.prems"
  show ?case
  proof (cases "ordering_operation block")
    case (Some oo)
    let ?P = "Some (Suc c)"
    let ?s1 = "case oo_nested_loop oo of None \<Rightarrow> (no_result, Suc c)
               | Some items \<Rightarrow> parseNestedLoop (Suc c) items ?P"
    let ?s2 = "case oo_grouping_operation oo of None \<Rightarrow> (no_result, snd ?s1)
               | Some g \<Rightarrow> parseGroupingOperation (snd ?s1) (Some g) ?P"
    let ?s3 = "case oo_table oo of None \<Rightarrow> (no_result, snd ?s2)
               | Some t \<Rightarrow> parseTable (snd ?s2) t ?P"
    let ?n = "opNode (Suc c) Sort ''ORDER BY'' (parseCost (oo_cost_info oo)) 0
                (op_extra (oo_using_filesort oo) (oo_using_temporary_table oo = Some True))
                (map node_id (nodes (fst ?s1)))"
    have i1: "plan_inv (Suc c) ?P ?s1"
      by (rule plan_inv_opt) (simp add: "7.IH"(9) [OF Some refl generateId_eq _ parent_ok_Suc])
    have i2: "plan_inv (snd ?s1) ?P ?s2"
      by (rule plan_inv_opt)
         (simp add: "7.IH"(10) [OF Some refl generateId_eq refl prod.collapse _
                       parent_ok_after [OF i1]])
    note c12 = plan_inv_append' [OF i1 i2]
    have ok2: "parent_ok ?P (snd ?s2)" using parent_ok_after [OF c12] by simp
    have i3: "plan_inv (snd ?s2) ?P ?s3"
      by (rule plan_inv_opt)
         (simp add: "7.IH"(11) [OF Some refl generateId_eq refl prod.collapse refl
                       prod.collapse _ ok2])
    have c123: "plan_inv (Suc c) ?P
        (\<lparr>nodes = nodes (fst ?s1) @ nodes (fst ?s2) @ nodes (fst ?s3),
          edges = edges (fst ?s1) @ edges (fst ?s2) @ edges (fst ?s3)\<rparr>, snd ?s3)"
      using plan_inv_append' [OF c12, of ?s3] i3 by simp
    have eq: "parseQueryBlock c block parentId blockType =
        (\<lparr>nodes = ?n # nodes (fst ?s1) @ nodes (fst ?s2) @ nodes (fst ?s3),
          edges = parent_edge (Suc c) parentId @ edges (fst ?s1) @ edges (fst ?s2)
                    @ edges (fst ?s3)\<rparr>, snd ?s3)"
      by (simp add: parseQueryBlock.simps [of c block] Some generateId_def split_beta Let_def
            cong: option.case_cong)
    show ?thesis unfolding eq
      using plan_inv_node' [OF c123, of ?n parentId] ok by (simp add: opNode_def)
  next
    case None
    note ord = None
    show ?thesis
    proof (cases "qb_grouping_operation block")
      case (Some g)
      have eq: "parseQueryBlock c block parentId blockType =
          parseGroupingOperation c (Some g) parentId"
        by (simp add: parseQueryBlock.simps [of c block] ord Some)
      show ?thesis unfolding eq by (rule "7.IH"(8) [OF ord Some ok])
    next
      case None
      note grp = None
      show ?thesis
      proof (cases "duplicates_removal block")
        case (Some d)
        let ?P = "Some (Suc c)"
        let ?s1 = "case dr_nested_loop d of None \<Rightarrow> (no_result, Suc c)
                   | Some items \<Rightarrow> parseNestedLoop (Suc c) items ?P"
        let ?s2 = "case dr_table d of None \<Rightarrow> (no_result, snd ?s1)
                   | Some t \<Rightarrow> parseTable (snd ?s1) t ?P"
        let ?n = "opNode (Suc c) Distinct ''DISTINCT'' (parseCost (dr_cost_info d)) 0
                    (op_extra (dr_using_filesort d = Some True)
                       (dr_using_temporary_table d = Some True)) []"
        have i1: "plan_inv (Suc c) ?P ?s1"
          by (rule plan_inv_opt)
             (simp add: "7.IH"(6) [OF ord grp Some refl generateId_eq _ parent_ok_Suc])
        have i2: "plan_inv (snd ?s1) ?P ?s2"
          by (rule plan_inv_opt)
             (simp add: "7.IH"(7) [OF ord grp Some refl generateId_eq refl prod.collapse _
                           parent_ok_after [OF i1]])
        note comb = plan_inv_append' [OF i1 i2]
        have eq: "parseQueryBlock c block parentId blockType =
            (\<lparr>nodes = ?n # nodes (fst ?s1) @ nodes (fst ?s2),
              edges = parent_edge (Suc c) parentId @ edges (fst ?s1) @ edges (fst ?s2)\<rparr>,
             snd ?s2)"
          by (simp add: parseQueryBlock.simps [of c block] ord grp Some generateId_def
                split_beta Let_def cong: option.case_cong)
        show ?thesis unfolding eq
          using plan_inv_node' [OF comb, of ?n parentId] ok by (simp add: opNode_def)
      next
        case None
        note dup = None
        show ?thesis
        proof (cases "union_result block")
          case (Some u)
          let ?P = "Some (Suc c)"
          let ?s1 = "case query_specifications u of None \<Rightarrow> (no_result, Suc c)
                     | Some specs \<Rightarrow> parseQueryBlocks (Suc c) specs ?P Select"
          let ?n = "opNode (Suc c) Union ''UNION'' (Num 0) 0
                      (if ur_using_temporary_table u then [''Using temporary table''] else []) []"
          have i1: "plan_inv (Suc c) ?P ?s1"
            by (rule plan_inv_opt)
               (simp add: "7.IH"(5) [OF ord grp dup Some refl generateId_eq _ parent_ok_Suc])
          have eq: "parseQueryBlock c block parentId blockType =
              (\<lparr>nodes = ?n # nodes (fst ?s1),
                edges = parent_edge (Suc c) parentId @ edges (fst ?s1)\<rparr>, snd ?s1)"
            by (simp add: parseQueryBlock.simps [of c block] ord grp dup Some generateId_def
                  split_beta Let_def cong: option.case_cong)
          show ?thesis unfolding eq
            using plan_inv_node' [OF i1, of ?n parentId] ok by (simp add: opNode_def)
        next
          case None
          note uni = None
          let ?s1 = "case qb_nested_loop block of None \<Rightarrow> (no_result, c)
                     | Some items \<Rightarrow> parseNestedLoop c items parentId"
          let ?s2 = "case qb_table block of None \<Rightarrow> (no_result, snd ?s1)
                     | Some t \<Rightarrow> parseTable (snd ?s1) t parentId"
          let ?s3 = "parseQueryBlocks (snd ?s2) (allSubqueries block) parentId Subquery"
          let ?s4 = "case qb_query_block block of None \<Rightarrow> (no_result, snd ?s3)
                     | Some qb \<Rightarrow> parseQueryBlock (snd ?s3) qb parentId Select"
          let ?ns = "nodes (fst ?s1) @ nodes (fst ?s2) @ nodes (fst ?s3) @ nodes (fst ?s4)"
          let ?es = "edges (fst ?s1) @ edges (fst ?s2) @ edges (fst ?s3) @ edges (fst ?s4)"
          let ?all = "(\<lparr>nodes = ?ns, edges = ?es\<rparr>, snd ?s4)"
          have i1: "plan_inv c parentId ?s1"
            by (rule plan_inv_opt) (simp add: "7.IH"(1) [OF ord grp dup uni _ ok])
          have ok1: "parent_ok parentId (snd ?s1)"
            using parent_ok_mono [OF ok plan_inv_le [OF i1]] .
          have i2: "plan_inv (snd ?s1) parentId ?s2"
            by (rule plan_inv_opt)
               (simp add: "7.IH"(2) [OF ord grp dup uni refl prod.collapse _ ok1])
          have ok2: "parent_ok parentId (snd ?s2)"
            using parent_ok_mono [OF ok1 plan_inv_le [OF i2]] .
          have i3: "plan_inv (snd ?s2) parentId ?s3"
            by (rule "7.IH"(3) [OF ord grp dup uni refl prod.collapse refl prod.collapse ok2])
          have ok3: "parent_ok parentId (snd ?s3)"
            using parent_ok_mono [OF ok2 plan_inv_le [OF i3]] .
          have i4: "plan_inv (snd ?s3) parentId ?s4"
            by (rule plan_inv_opt)
               (simp add: "7.IH"(4) [OF ord grp dup uni refl prod.collapse refl prod.collapse
                             refl prod.collapse _ ok3])
          note c12 = plan_inv_append' [OF i1 i2]
          have c123: "plan_inv c parentId
              (\<lparr>nodes = nodes (fst ?s1) @ nodes (fst ?s2) @ nodes (fst ?s3),
                edges = edges (fst ?s1) @ edges (fst ?s2) @ edges (fst ?s3)\<rparr>, snd ?s3)"
            using plan_inv_append' [OF c12, of ?s3] i3 by simp
          have call: "plan_inv c parentId ?all"
            using plan_inv_append' [OF c123, of ?s4] i4 by simp
          show ?thesis
          proof (cases "truthy_str (qb_message block) \<and> ?ns = []")
            case False
            have eq: "parseQueryBlock c block parentId blockType = ?all"
              using False
              by (simp add: parseQueryBlock.simps [of c block] ord grp dup uni split_beta Let_def
                    cong: option.case_cong)
            show ?thesis unfolding eq by (rule call)
          next
            case True
            let ?n = "opNode (Suc c) blockType
                        (case qb_message block of Some m \<Rightarrow> m | None \<Rightarrow> []) (Num 0) 0 [] []"
            from True have nil: "nodes (fst ?all) = []" by simp
            from plan_inv_nil [OF call nil] have c4: "snd ?s4 = c" and es: "?es = []" by simp_all
            have eq: "parseQueryBlock c block parentId blockType =
                (\<lparr>nodes = ?n # nodes (fst (no_result, Suc c)),
                  edges = parent_edge (Suc c) parentId @ edges (fst (no_result, Suc c))\<rparr>,
                 snd (no_result, Suc c))"
              using True c4 es
              by (simp add: parseQueryBlock.simps [of c block] ord grp dup uni split_beta Let_def
                    generateId_def no_result_def cong: option.case_cong)
            show ?thesis unfolding eq
              by (rule plan_inv_node' [OF plan_inv_empty])
                 (simp_all add: opNode_def ok no_result_def)
          qed
        qed
      qed
    qed
  qed
next
  case (8 c parentId blockType)
  show ?case by (simp add: parseQueryBlocks.simps plan_inv_empty)
next
  case (9 c qb qbs parentId blockType)
  let ?s1 = "parseQueryBlock c qb parentId blockType"
  let ?s2 = "parseQueryBlocks (snd ?s1) qbs parentId blockType"
  have i1: "plan_inv c parentId ?s1" using "9.IH"(1) "9.prems" by simp
  have ok: "parent_ok parentId (snd ?s1)"
    using parent_ok_mono [OF "9.prems" plan_inv_le [OF i1]] .
  have i2: "plan_inv (snd ?s1) parentId ?s2"
    using "9.IH"(2) [OF refl prod.collapse ok] .
  have eq: "parseQueryBlocks c (qb # qbs) parentId blockType =
      (\<lparr>nodes = nodes (fst ?s1) @ nodes (fst ?s2), edges = edges (fst ?s1) @ edges (fst ?s2)\<rparr>, snd ?s2)"
    by (simp add: parseQueryBlocks.simps split_beta Let_def cong: option.case_cong)
  show ?case unfolding eq by (rule plan_inv_append' [OF i1 i2])
next
  case (10 c parentId)
  show ?case by (simp add: parseGroupingOperation.simps plan_inv_empty)
next
  case (11 c groupOp parentId)
  let ?P = "Some (Suc c)"
  let ?s1 = "case go_nested_loop groupOp of None \<Rightarrow> (no_result, Suc c)
             | Some items \<Rightarrow> parseNestedLoop (Suc c) items ?P"
  let ?s2 = "case go_table groupOp of None \<Rightarrow> (no_result, snd ?s1)
             | Some t \<Rightarrow> parseTable (snd ?s1) t ?P"
  let ?s3 = "case go_buffer_result groupOp of None \<Rightarrow> (no_result, snd ?s2)
             | Some b \<Rightarrow> parseBufferResult (snd ?s2) (Some b) ?P"
  let ?n = "opNode (Suc c) Group ''GROUP BY'' (parseCost (go_cost_info groupOp)) 0
              (op_extra (go_using_filesort groupOp = Some True)
                 (go_using_temporary_table groupOp = Some True)) []"
  have i1: "plan_inv (Suc c) ?P ?s1"
    by (rule plan_inv_opt) (simp add: "11.IH"(1) [OF refl generateId_eq _ parent_ok_Suc])
  have i2: "plan_inv (snd ?s1) ?P ?s2"
    by (rule plan_inv_opt)
       (simp add: "11.IH"(2) [OF refl generateId_eq refl prod.collapse _ parent_ok_after [OF i1]])
  note c12 = plan_inv_append' [OF i1 i2]
  have ok2: "parent_ok ?P (snd ?s2)" using parent_ok_after [OF c12] by simp
  have i3: "plan_inv (snd ?s2) ?P ?s3"
    by (rule plan_inv_opt)
       (simp add: "11.IH"(3) [OF refl generateId_eq refl prod.collapse refl prod.collapse _ ok2])
  have c123: "plan_inv (Suc c) ?P
      (\<lparr>nodes = nodes (fst ?s1) @ nodes (fst ?s2) @ nodes (fst ?s3),
        edges = edges (fst ?s1) @ edges (fst ?s2) @ edges (fst ?s3)\<rparr>, snd ?s3)"
    using plan_inv_append' [OF c12, of ?s3] i3 by simp
  have eq: "parseGroupingOperation c (Some groupOp) parentId =
      (\<lparr>nodes = ?n # nodes (fst ?s1) @ nodes (fst ?s2) @ nodes (fst ?s3),
        edges = parent_edge (Suc c) parentId @ edges (fst ?s1) @ edges (fst ?s2) @ edges (fst ?s3)\<rparr>,
       snd ?s3)"
    by (simp add: parseGroupingOperation.simps generateId_def split_beta Let_def
          cong: option.case_cong)
  show ?case unfolding eq
    using plan_inv_node' [OF c123, of ?n parentId] "11.prems" by (simp add: opNode_def)
next
  case (12 c parentId)
  show ?case by (simp add: parseBufferResult.simps plan_inv_empty)
next
  case (13 c buf parentId)
  let ?P = "Some (Suc c)"
  let ?s1 = "case br_nested_loop buf of None \<Rightarrow> (no_result, Suc c)
             | Some items \<Rightarrow> parseNestedLoop (Suc c) items ?P"
  let ?s2 = "case br_table buf of None \<Rightarrow> (no_result, snd ?s1)
             | Some t \<Rightarrow> parseTable (snd ?s1) t ?P"
  let ?n = "opNode (Suc c) Buffer ''Buffer Result'' (Num 0) 0
              (if br_using_temporary_table buf = Some True then [''Using temporary table''] else []) []"
  have i1: "plan_inv (Suc c) ?P ?s1"
    by (rule plan_inv_opt) (simp add: "13.IH"(1) [OF refl generateId_eq _ parent_ok_Suc])
  have i2: "plan_inv (snd ?s1) ?P ?s2"
    by (rule plan_inv_opt)
       (simp add: "13.IH"(2) [OF refl generateId_eq refl prod.collapse _ parent_ok_after [OF i1]])
  note comb = plan_inv_append' [OF i1 i2]
  have eq: "parseBufferResult c (Some buf) parentId =
      (\<lparr>nodes = ?n # nodes (fst ?s1) @ nodes (fst ?s2),
        edges = parent_edge (Suc c) parentId @ edges (fst ?s1) @ edges (fst ?s2)\<rparr>, snd ?s2)"
    by (simp add: parseBufferResult.simps generateId_def split_beta Let_def
          cong: option.case_cong)
  show ?case unfolding eq
    using plan_inv_node' [OF comb, of ?n parentId] "13.prems" by (simp add: opNode_def)
qed

section \<open>Cost extraction on corrupt fields\<close>

lemma literal_NaN: "\<not> starts_number u \<Longrightarrow> StrUnsignedDecimalLiteral u = NaN"
proof (cases u)
  case Nil
  then show ?thesis by (simp add: StrUnsignedDecimalLiteral_def)
next
  case (Cons c v)
  assume a: "\<not> starts_number u"
  from a Cons have inf: "take 8 (c # v) \<noteq> ''Infinity''" and nd: "\<not> is_digit c"
    and dot: "c = CHR ''.'' \<Longrightarrow> (case v of [] \<Rightarrow> True | d # _ \<Rightarrow> \<not> is_digit d)"
    by (auto simp: starts_number_def split: list.splits)
  from nd have tw: "takeWhile is_digit (c # v) = []" "dropWhile is_digit (c # v) = c # v"
    by simp_all
  show ?thesis
  proof (cases "c = CHR ''.''")
    case True
    with dot have "takeWhile is_digit v = []" by (cases v) auto
    with True inf tw Cons show ?thesis
      unfolding StrUnsignedDecimalLiteral_def Let_def by simp
  next
    case False
    with inf tw Cons show ?thesis
      unfolding StrUnsignedDecimalLiteral_def Let_def by simp
  qed
qed

lemma parseFloat_NaN: "\<not> numeric_prefix s \<Longrightarrow> parseFloat s = NaN"
proof (cases "dropWhile is_whitespace s")
  case Nil
  show ?thesis by (simp add: parseFloat_def Nil)
next
  case (Cons c u)
  assume a: "\<not> numeric_prefix s"
  show ?thesis
  proof (cases "c = CHR ''+'' \<or> c = CHR ''-''")
    case True
    with a Cons have "\<not> starts_number u" by (simp add: numeric_prefix_def)
    then have "StrUnsignedDecimalLiteral u = NaN" by (rule literal_NaN)
    with True Cons show ?thesis by (auto simp: parseFloat_def)
  next
    case False
    with a Cons have "\<not> starts_number (c # u)" by (simp add: numeric_prefix_def)
    then have "StrUnsignedDecimalLiteral (c # u) = NaN" by (rule literal_NaN)
    with False Cons show ?thesis by (simp add: parseFloat_def)
  qed
qed

lemma parseTable_cost_info:
  "parseTable c (TableInfo tn acc k ukp rex rpj ci ac ui uic ut uf mat msg) p =
     (let rc = parseTable c (TableInfo tn acc k ukp rex rpj None ac ui uic ut uf mat msg) p
      in ((fst rc)\<lparr>nodes := (hd (nodes (fst rc)))\<lparr>cost := parseCost ci\<rparr> # tl (nodes (fst rc))\<rparr>,
          snd rc))"
  by (simp add: parseTable.simps generateId_def split_beta Let_def tableNode_def getExtraInfo_def)

text \<open>
  C5, as amended. When the field that \<^verbatim>\<open>parseCost\<close> selects (the first of query cost, read
  cost and prefix cost that is present and not empty) has no numeric prefix, \<^verbatim>\<open>parseCost\<close>
  returns NaN: it does not throw, and it does not return zero. The table node is emitted
  all the same: the result of \<^verbatim>\<open>parseTable\<close> is the one for the record without its cost
  record, but for the cost of the table node, which is NaN.
\<close>

theorem parseCost_non_numeric:
  assumes "or_str (or_str (query_cost ci) (read_cost ci)) (prefix_cost ci) = Some s"
    and "s \<noteq> []" and "\<not> numeric_prefix s"
  shows "parseCost (Some ci) = NaN \<and>
         parseTable c (TableInfo tn acc k ukp rex rpj (Some ci) ac ui uic ut uf mat msg) p =
           (let rc = parseTable c (TableInfo tn acc k ukp rex rpj None ac ui uic ut uf mat msg) p
            in ((fst rc)\<lparr>nodes := (hd (nodes (fst rc)))\<lparr>cost := NaN\<rparr> # tl (nodes (fst rc))\<rparr>,
                snd rc))"
proof -
  from assms have "parseCost (Some ci) = NaN"
    by (simp add: parseCost_def parseFloat_NaN)
  then show ?thesis
    using parseTable_cost_info [of c tn acc k ukp rex rpj "Some ci" ac ui uic ut uf mat msg p]
    by simp
qed

theorem parseCost_non_numeric_witness:
  "parseCost (Some \<lparr>query_cost = None, read_cost = Some ''n/a'', prefix_cost = None\<rparr>) = NaN \<and>
   nodes (fst (parseTable 0
      (TableInfo ''users'' ''ALL'' None None (Some 100) None
         (Some \<lparr>query_cost = None, read_cost = Some ''n/a'', prefix_cost = None\<rparr>)
         None None None None None None None) None)) =
     [\<lparr>node_id = 1, node_type = Table, label = ''users'', cost = NaN, rows = 100,
       table = Some ''users'', accessType = Some ''ALL'', key = None, keyParts = None,
       condition = None, extra = [], children = [], isCriticalPath = False\<rparr>]"
proof -
  have n: "\<not> numeric_prefix ''n/a''"
    by (simp add: numeric_prefix_def starts_number_def is_whitespace_def is_digit_def)
  have t: "nodes (fst (parseTable 0
      (TableInfo ''users'' ''ALL'' None None (Some 100) None None
         None None None None None None None) None)) =
     [\<lparr>node_id = 1, node_type = Table, label = ''users'', cost = Num 0, rows = 100,
       table = Some ''users'', accessType = Some ''ALL'', key = None, keyParts = None,
       condition = None, extra = [], children = [], isCriticalPath = False\<rparr>]"
    by (simp add: parseTable.simps generateId_def tableNode_def parseCost_def or_rows_def
          getExtraInfo_def truthy_str_def no_result_def)
  show ?thesis
    using parseCost_non_numeric [of "\<lparr>query_cost = None, read_cost = Some ''n/a'', prefix_cost = None\<rparr>"
        "''n/a''" 0 "''users''" "''ALL''" None None "Some 100" None None None None None None None None None] n t
    by (simp add: or_str_def truthy_str_def Let_def)
qed

theorem parseCost_zero_counterexample:
  "\<not> numeric_prefix ''abc'' \<and>
   parseCost (Some \<lparr>query_cost = Some ''abc'', read_cost = None, prefix_cost = None\<rparr>) \<noteq> Num 0"
  by (simp add: numeric_prefix_def starts_number_def is_whitespace_def is_digit_def
        parseCost_def or_str_def truthy_str_def parseFloat_def StrUnsignedDecimalLiteral_def)

section \<open>Row estimates\<close>

lemma parseTable_eq:
  "parseTable c tbl p =
     (let sub = (case materialized_from_subquery tbl of None \<Rightarrow> (no_result, Suc c)
                 | Some qb \<Rightarrow> parseQueryBlock (Suc c) qb (Some (Suc c)) Subquery)
      in (\<lparr>nodes = tableNode (Suc c) tbl (map node_id (nodes (fst sub))) # nodes (fst sub),
           edges = parent_edge (Suc c) p @ edges (fst sub)\<rparr>, snd sub))"
  by (simp add: parseTable.simps generateId_def split_beta Let_def cong: option.case_cong)

lemma parseNestedLoop_eq:
  "parseNestedLoop c (item1 # item2 # items) p =
     (let tabs = parseTables (Suc c) (item1 # item2 # items) (Suc c)
      in (\<lparr>nodes = opNode (Suc c) Join ''Nested Loop Join'' (joinCost (item1 # item2 # items))
                    (joinRows (item1 # item2 # items)) [] (map node_id (nodes (fst tabs)))
                  # nodes (fst tabs),
           edges = parent_edge (Suc c) p @ edges (fst tabs)\<rparr>, snd tabs))"
  by (simp add: parseNestedLoop.simps generateId_def split_beta Let_def)

text \<open>
  C10. The \<^verbatim>\<open>rows\<close> of a table node is the examined-row estimate when it is present and
  not zero, else the produced-row estimate when it is present and not zero, else 0. The
  estimate of a table in the row estimate of a join node has the opposite precedence: the
  produced-row estimate first, then the examined-row estimate. (\<open>or_rows a b\<close> is
  \<^verbatim>\<open>a || b || 0\<close>: the first three conjuncts say what it returns.)
\<close>

theorem table_rows_precedence:
  "(a = Some x \<and> x \<noteq> 0 \<longrightarrow> or_rows a b = x) \<and>
   ((a = None \<or> a = Some 0) \<and> b = Some y \<and> y \<noteq> 0 \<longrightarrow> or_rows a b = y) \<and>
   ((a = None \<or> a = Some 0) \<and> (b = None \<or> b = Some 0) \<longrightarrow> or_rows a b = 0) \<and>
   rows (hd (nodes (fst (parseTable c tbl p)))) =
     or_rows (rows_examined_per_scan tbl) (rows_produced_per_join tbl) \<and>
   rows (hd (nodes (fst (parseNestedLoop c (item1 # item2 # items) p)))) =
     foldl (\<lambda>sum item.
              if sum = 0 then or_rows (rows_produced_per_join item) (rows_examined_per_scan item)
              else sum * or_rows (rows_produced_per_join item) (rows_examined_per_scan item))
       0 (item1 # item2 # items)"
proof -
  have 1: "a = Some x \<and> x \<noteq> 0 \<longrightarrow> or_rows a b = x"
    by (simp add: or_rows_def)
  have 2: "(a = None \<or> a = Some 0) \<and> b = Some y \<and> y \<noteq> 0 \<longrightarrow> or_rows a b = y"
    by (auto simp: or_rows_def)
  have 3: "(a = None \<or> a = Some 0) \<and> (b = None \<or> b = Some 0) \<longrightarrow> or_rows a b = 0"
    by (auto simp: or_rows_def)
  have 4: "rows (hd (nodes (fst (parseTable c tbl p)))) =
     or_rows (rows_examined_per_scan tbl) (rows_produced_per_join tbl)"
    by (simp add: parseTable_eq Let_def tableNode_def)
  have 5: "rows (hd (nodes (fst (parseNestedLoop c (item1 # item2 # items) p)))) =
     joinRows (item1 # item2 # items)"
    by (simp add: parseNestedLoop_eq Let_def opNode_def)
  from 1 2 3 4 5 show ?thesis by (simp add: joinRows_def Let_def)
qed

theorem table_rows_precedence_witness:
  "or_rows (Some 7) (Some 3) = 7 \<and> or_rows (Some 0) (Some 3) = 3 \<and> or_rows None (Some 0) = 0 \<and>
   rows (hd (nodes (fst (parseTable 0
      (TableInfo ''t'' ''ALL'' None None (Some 7) (Some 3) None None None None None None None None)
      None)))) = 7 \<and>
   rows (hd (nodes (fst (parseNestedLoop 0
      [TableInfo ''t'' ''ALL'' None None (Some 7) (Some 3) None None None None None None None None,
       TableInfo ''u'' ''ref'' None None (Some 2) None None None None None None None None None]
      None)))) = 6"
  using table_rows_precedence [of "Some 7" 7 "Some 3" 3 0
      "TableInfo ''t'' ''ALL'' None None (Some 7) (Some 3) None None None None None None None None" None
      "TableInfo ''t'' ''ALL'' None None (Some 7) (Some 3) None None None None None None None None"
      "TableInfo ''u'' ''ref'' None None (Some 2) None None None None None None None None None"
      "[]"]
    table_rows_precedence [of "Some 0" 0 "Some 3" 3]
    table_rows_precedence [of None 0 "Some 0" 0]
  by (simp add: or_rows_def)

section \<open>Nested-loop joins\<close>











section \<open>Edges and children\<close>

text \<open>
  C1: the claim holds of the nodes that \<^verbatim>\<open>parseNestedLoop\<close> and \<^verbatim>\<open>parseTable\<close> fill in,
  and fails where the parser attaches a subtree without pushing to \<^verbatim>\<open>children\<close>. The
  plan of the repository's own test of GROUP BY (a grouping operation over the table
  \<^verbatim>\<open>sales\<close>) is parsed to a group node and a table node with the edge from the table to
  the group, and the \<^verbatim>\<open>children\<close> of the group node are empty.
\<close>

theorem group_children_missing:
  "(let r = fst (parseQueryBlock 0
       (QueryBlock None None None
          (Some (GroupingOperation (Some True) (Some True) None
             (Some (TableInfo ''sales'' ''ALL'' None None (Some 10000) None None None None None
                      None None None None)) None None))
          None None None None None None None) None Select)
    in map node_type (nodes r) = [Group, Table] \<and> map node_id (nodes r) = [1, 2] \<and>
       edges r = [\<lparr>source = 2, target = 1\<rparr>] \<and>
       map children (nodes r) = [[], []])"
  by code_simp

section \<open>Validation\<close>






section \<open>The annotator and the layout return on the graphs of the parser\<close>

lemma find_node_Some: "find_node ns i = Some n \<Longrightarrow> n \<in> set ns \<and> node_id n = i"
  by (auto simp: find_node_def find_Some_iff)

lemma find_node_None: "find_node ns i = None \<longleftrightarrow> i \<notin> node_id ` set ns"
  by (auto simp: find_node_def find_None_iff)

lemma set_sort_insert: "set (sort_insert cmp a bs) = insert a (set bs)"
  by (induction bs) auto

lemma set_Array_sort: "set (Array_sort cmp xs) = set xs"
  by (induction xs) (simp_all add: Array_sort_def set_sort_insert)

text \<open>The children of a node have greater ids, up to \<open>m\<close>.\<close>

definition ordered_children :: "nat \<Rightarrow> PlanNode list \<Rightarrow> bool" where
  "ordered_children m ns = (\<forall>n\<in>set ns. \<forall>k\<in>set (children n). node_id n < k \<and> k \<le> m)"

definition unmark :: "PlanNode \<Rightarrow> PlanNode" where
  "unmark n = n\<lparr>isCriticalPath := False\<rparr>"

lemma unmark_mark_node: "map unmark (mark_node i ns) = map unmark ns"
  by (induction ns) (simp_all add: unmark_def)

lemma unmark_fields:
  assumes "map unmark ns' = map unmark ns"
  shows "map node_id ns' = map node_id ns" and "map children ns' = map children ns"
    and "map cost ns' = map cost ns"
proof -
  have "map (node_id \<circ> unmark) ns' = map (node_id \<circ> unmark) ns"
    "map (children \<circ> unmark) ns' = map (children \<circ> unmark) ns"
    "map (cost \<circ> unmark) ns' = map (cost \<circ> unmark) ns"
    using assms by (metis map_map)+
  then show "map node_id ns' = map node_id ns" "map children ns' = map children ns"
    "map cost ns' = map cost ns"
    by (simp_all add: unmark_def comp_def)
qed

lemma ordered_children_mark_node:
  "ordered_children m (mark_node i ns) = ordered_children m ns"
  by (induction ns) (auto simp: ordered_children_def)

lemma calculate_total:
  "ordered_children m ns \<Longrightarrow> m - i < fuel \<Longrightarrow> calculateCumulativeCost fuel ns nc i \<noteq> None"
  "ordered_children m ns \<Longrightarrow> \<forall>k\<in>set ks. m - k < fuel \<Longrightarrow>
     calculateChildCosts fuel ns nc ks \<noteq> None"
proof (induction fuel ns nc i and fuel ns nc ks
       rule: calculateCumulativeCost_calculateChildCosts.induct)
  case (1 ns nodeCosts nodeId)
  then show ?case by simp
next
  case (2 fuel ns nodeCosts nodeId)
  show ?case
  proof (cases "find_node ns nodeId")
    case None
    then show ?thesis by simp
  next
    case (Some node)
    with find_node_Some have "node \<in> set ns" "node_id node = nodeId" by blast+
    with "2.prems" have "\<forall>k\<in>set (children node). m - k < fuel"
      by (fastforce simp: ordered_children_def)
    from "2.IH" [OF Some "2.prems"(1) this] Some show ?thesis
      by (auto simp: Let_def)
  qed
next
  case (3 fuel ns nodeCosts)
  then show ?case by simp
next
  case (4 fuel ns nodeCosts childId childIds)
  from "4.prems" have a: "m - childId < fuel" and b: "\<forall>k\<in>set childIds. m - k < fuel"
    by simp_all
  from "4.IH"(1) [OF "4.prems"(1) a] obtain v nc1
    where c: "calculateCumulativeCost fuel ns nodeCosts childId = Some (v, nc1)" by auto
  from "4.IH"(2) [OF c refl "4.prems"(1) b] c show ?case by auto
qed

lemma markPath_total:
  "ordered_children m ns \<Longrightarrow> m - i < fuel \<Longrightarrow> markPath fuel nc ns i \<noteq> None"
proof (induction fuel arbitrary: ns i)
  case 0
  then show ?case by simp
next
  case (Suc fuel)
  show ?case
  proof (cases "find_node ns i")
    case None
    then show ?thesis by simp
  next
    case (Some node)
    with find_node_Some have n: "node \<in> set ns" "node_id node = i" by blast+
    show ?thesis
    proof (cases "children node = []")
      case True
      with Some show ?thesis by simp
    next
      case False
      let ?pairs = "map (\<lambda>childId. (childId, get_or_zero nc childId)) (children node)"
      from False have "set (Array_sort by_cost_desc ?pairs) \<noteq> {}"
        by (simp add: set_Array_sort)
      then obtain first rest where s: "Array_sort by_cost_desc ?pairs = first # rest"
        by (cases "Array_sort by_cost_desc ?pairs") auto
      then have "first \<in> set ?pairs" by (metis set_Array_sort list.set_intros(1))
      then have "fst first \<in> set (children node)" by auto
      with n Suc.prems have "m - fst first < fuel"
        by (fastforce simp: ordered_children_def)
      from Suc.IH [OF _ this, of "mark_node i ns"] Suc.prems(1)
      have "markPath fuel nc (mark_node i ns) (fst first) \<noteq> None"
        by (simp add: ordered_children_mark_node)
      with Some False s show ?thesis by (simp add: Let_def)
    qed
  qed
qed

lemma markPath_unmark: "markPath fuel nc ns i = Some ns' \<Longrightarrow> map unmark ns' = map unmark ns"
proof (induction fuel arbitrary: ns i)
  case 0
  then show ?case by simp
next
  case (Suc fuel)
  show ?case
  proof (cases "find_node ns i")
    case None
    with Suc.prems show ?thesis by simp
  next
    case (Some node)
    show ?thesis
    proof (cases "children node = []")
      case True
      with Some Suc.prems show ?thesis by (auto simp: unmark_mark_node)
    next
      case False
      let ?pairs = "map (\<lambda>childId. (childId, get_or_zero nc childId)) (children node)"
      from Some False Suc.prems obtain first rest
        where "Array_sort by_cost_desc ?pairs = first # rest"
          and "markPath fuel nc (mark_node i ns) (fst first) = Some ns'"
        by (auto simp: Let_def split: list.splits)
      from Suc.IH [OF this(2)] show ?thesis by (simp add: unmark_mark_node)
    qed
  qed
qed

lemma markCriticalPath_total:
  assumes "ordered_children m ns" and "m < fuel"
  shows "markCriticalPath fuel ns \<noteq> None"
proof -
  from assms(2) have "\<forall>k\<in>set (map node_id (rootNodes ns)). m - k < fuel" by auto
  from calculate_total(2) [where nc = Map.empty, OF assms(1) this]
  obtain vs nc where c: "calculateChildCosts fuel ns Map.empty (map node_id (rootNodes ns)) = Some (vs, nc)"
    by auto
  from assms(2) have "\<And>i. markPath fuel nc ns i \<noteq> None"
    using markPath_total [OF assms(1)] by (simp add: less_imp_diff_less)
  with c show ?thesis
    by (simp add: markCriticalPath_def Let_def split: list.splits)
qed

lemma markCriticalPath_unmark:
  "markCriticalPath fuel ns = Some ns' \<Longrightarrow> map unmark ns' = map unmark ns"
  by (auto simp: markCriticalPath_def Let_def markPath_unmark
      split: if_splits option.splits list.splits)


text \<open>The edges go from a node to a node with a smaller id, and no id is above \<open>m\<close>.\<close>

definition forest_edges :: "nat \<Rightarrow> Edge list \<Rightarrow> bool" where
  "forest_edges m es = (\<forall>e\<in>set es. target e < source e \<and> source e \<le> m)"

lemma children_of_foldl:
  "children_of (foldl (\<lambda>m e. m(target e \<mapsto> (case m (target e) of None \<Rightarrow> [] | Some cs \<Rightarrow> cs)
                                  @ [source e])) cm es) t =
   children_of cm t @ map source (filter (\<lambda>e. target e = t) es)"
  by (induction es arbitrary: cm) (auto simp: children_of_def split: option.splits)

lemma children_of_childrenMap:
  "children_of (childrenMap_of es) t = map source (filter (\<lambda>e. target e = t) es)"
  using children_of_foldl [of Map.empty es t] by (simp add: childrenMap_of_def children_of_def)

lemma children_of_forest:
  "forest_edges m es \<Longrightarrow> k \<in> set (children_of (childrenMap_of es) i) \<Longrightarrow> i < k \<and> k \<le> m"
  by (auto simp: children_of_childrenMap forest_edges_def)

lemma calcWidth_total:
  "(\<And>i k. k \<in> set (children_of cm i) \<Longrightarrow> i < k \<and> k \<le> m) \<Longrightarrow> m - i < fuel \<Longrightarrow>
     calcWidth fuel cm sw i \<noteq> None"
  "(\<And>i k. k \<in> set (children_of cm i) \<Longrightarrow> i < k \<and> k \<le> m) \<Longrightarrow> \<forall>k\<in>set ks. m - k < fuel \<Longrightarrow>
     calcWidths fuel cm sw acc ks \<noteq> None"
proof (induction fuel cm sw i and fuel cm sw acc ks rule: calcWidth_calcWidths.induct)
  case (1 childrenMap subtreeWidths nodeId)
  then show ?case by simp
next
  case (2 fuel childrenMap subtreeWidths nodeId)
  show ?case
  proof (cases "children_of childrenMap nodeId = []")
    case True
    then show ?thesis by simp
  next
    case False
    from "2.prems" have "\<forall>k\<in>set (children_of childrenMap nodeId). m - k < fuel"
      by fastforce
    from "2.IH" [OF False "2.prems"(1) this] False show ?thesis
      by (auto simp: Let_def)
  qed
next
  case (3 fuel childrenMap subtreeWidths acc)
  then show ?case by simp
next
  case (4 fuel childrenMap subtreeWidths acc childId childIds)
  from "4.prems" have a: "m - childId < fuel" and b: "\<forall>k\<in>set childIds. m - k < fuel"
    by simp_all
  from "4.IH"(1) [OF "4.prems"(1) a] obtain w sw1
    where c: "calcWidth fuel childrenMap subtreeWidths childId = Some (w, sw1)" by auto
  from "4.IH"(2) [OF c refl "4.prems"(1) b] c show ?case by auto
qed

lemma calcRootWidths_total:
  assumes "\<And>i k. k \<in> set (children_of cm i) \<Longrightarrow> i < k \<and> k \<le> m" and "m < fuel"
  shows "calcRootWidths fuel cm sw rs \<noteq> None"
proof (induction rs arbitrary: sw)
  case Nil
  show ?case by simp
next
  case (Cons r rs)
  from assms(2) have "m - r < fuel" by simp
  from calcWidth_total(1) [of cm m r fuel sw, OF assms(1) this] Cons show ?case by auto
qed

definition unplace :: "FlowNode \<Rightarrow> FlowNode" where
  "unplace n = n\<lparr>pos_x := 0, pos_y := 0\<rparr>"

lemma unplace_set_position: "map unplace (set_position i px py ns) = map unplace ns"
  by (induction ns) (simp_all add: unplace_def)

lemma positionNode_total:
  "(\<And>i k. k \<in> set (children_of cm i) \<Longrightarrow> i < k \<and> k \<le> m) \<Longrightarrow> m - i < fuel \<Longrightarrow>
     positionNode fuel cm sw st i px py \<noteq> None"
  "(\<And>i k. k \<in> set (children_of cm i) \<Longrightarrow> i < k \<and> k \<le> m) \<Longrightarrow> \<forall>k\<in>set ks. m - k < fuel \<Longrightarrow>
     positionChildren fuel cm sw st ks cx py \<noteq> None"
proof (induction fuel cm sw st i px py and fuel cm sw st ks cx py
       rule: positionNode_positionChildren.induct)
  case (1 childrenMap subtreeWidths st nodeId px py)
  then show ?case by simp
next
  case (2 fuel childrenMap subtreeWidths st nodeId px py)
  from "2.prems" have k: "\<forall>k\<in>set (children_of childrenMap nodeId). m - k < fuel"
    by fastforce
  show ?case
  proof (cases "nodeId \<in> fst st")
    case True
    then show ?thesis by simp
  next
    case False
    note nin = False
    show ?thesis
    proof (cases "find (\<lambda>n. flow_id n = nodeId) (snd st)")
      case None
      with nin show ?thesis by simp
    next
      case (Some node)
      show ?thesis
      proof (cases "children_of childrenMap nodeId = []")
        case True
        with nin Some show ?thesis by (simp add: Let_def)
      next
        case False
        from "2.IH" [OF nin refl Some refl refl False refl refl "2.prems"(1) k]
        show ?thesis using nin Some False by (simp add: Let_def)
      qed
    qed
  qed
next
  case (3 fuel childrenMap subtreeWidths st childX py)
  then show ?case by simp
next
  case (4 fuel childrenMap subtreeWidths st childId childIds childX py)
  from "4.prems" have a: "m - childId < fuel" and b: "\<forall>k\<in>set childIds. m - k < fuel"
    by simp_all
  from "4.IH"(1) [OF refl refl "4.prems"(1) a] obtain st1
    where c: "positionNode fuel childrenMap subtreeWidths st childId
                (childX + width_of subtreeWidths childId / 2 - nodeWidth / 2) py = Some st1"
    by auto
  from "4.IH"(2) [OF refl refl c "4.prems"(1) b] c show ?case by (simp add: Let_def)
qed

lemma positionNode_unplace:
  "positionNode fuel cm sw st i px py = Some st' \<Longrightarrow> map unplace (snd st') = map unplace (snd st)"
  "positionChildren fuel cm sw st ks cx py = Some st' \<Longrightarrow> map unplace (snd st') = map unplace (snd st)"
proof (induction fuel cm sw st i px py and fuel cm sw st ks cx py arbitrary: st' and st'
       rule: positionNode_positionChildren.induct)
  case (1 childrenMap subtreeWidths st nodeId px py)
  then show ?case by simp
next
  case (2 fuel childrenMap subtreeWidths st nodeId px py)
  show ?case
  proof (cases "nodeId \<in> fst st")
    case True
    with "2.prems" show ?thesis by simp
  next
    case False
    note nin = False
    show ?thesis
    proof (cases "find (\<lambda>n. flow_id n = nodeId) (snd st)")
      case None
      with nin "2.prems" show ?thesis by auto
    next
      case (Some node)
      show ?thesis
      proof (cases "children_of childrenMap nodeId = []")
        case True
        with nin Some "2.prems" show ?thesis by (auto simp: Let_def unplace_set_position)
      next
        case False
        from "2.prems" nin Some False
        have "positionChildren fuel childrenMap subtreeWidths
                (insert nodeId (fst st), set_position nodeId px py (snd st))
                (children_of childrenMap nodeId)
                (px + (nodeWidth - foldl (\<lambda>sum childId. sum + width_of subtreeWidths childId + horizontalGap)
                            (- horizontalGap) (children_of childrenMap nodeId)) / 2)
                (py + nodeHeight + verticalGap) = Some st'"
          by (simp add: Let_def)
        from "2.IH" [OF nin refl Some refl refl False refl refl this]
        show ?thesis by (simp add: unplace_set_position)
      qed
    qed
  qed
next
  case (3 fuel childrenMap subtreeWidths st childX py)
  then show ?case by simp
next
  case (4 fuel childrenMap subtreeWidths st childId childIds childX py)
  from "4.prems" obtain st1
    where c: "positionNode fuel childrenMap subtreeWidths st childId
                (childX + width_of subtreeWidths childId / 2 - nodeWidth / 2) py = Some st1"
      and d: "positionChildren fuel childrenMap subtreeWidths st1 childIds
                (childX + width_of subtreeWidths childId + horizontalGap) py = Some st'"
    by (auto simp: Let_def split: option.splits)
  from "4.IH"(1) [OF refl refl c] "4.IH"(2) [OF refl refl c d] show ?case by simp
qed


lemma positionRoots_total:
  assumes "\<And>i k. k \<in> set (children_of cm i) \<Longrightarrow> i < k \<and> k \<le> m" and "m < fuel"
  shows "positionRoots fuel cm sw st rs rootX \<noteq> None"
proof (induction rs arbitrary: st rootX)
  case Nil
  show ?case by simp
next
  case (Cons r rs)
  from assms(2) have "m - r < fuel" by simp
  from positionNode_total(1) [of cm m r fuel sw st rootX 0, OF assms(1) this] Cons
  show ?case by auto
qed

lemma positionRoots_unplace:
  "positionRoots fuel cm sw st rs rootX = Some (st', rootX') \<Longrightarrow>
     map unplace (snd st') = map unplace (snd st)"
proof (induction rs arbitrary: st rootX)
  case Nil
  then show ?case by simp
next
  case (Cons r rs)
  from Cons.prems obtain st1 where a: "positionNode fuel cm sw st r rootX 0 = Some st1"
    and b: "positionRoots fuel cm sw st1 rs (rootX + width_of sw r + horizontalGap * 2)
              = Some (st', rootX')"
    by (auto split: option.splits)
  from Cons.IH [OF b] positionNode_unplace(1) [OF a] show ?case by simp
qed

lemma unplace_placeOrphans: "map unplace (placeOrphans P rootX orphanY ns) = map unplace ns"
  by (induction ns arbitrary: orphanY) (simp_all add: unplace_def)

lemma applyLayout_total:
  assumes "forest_edges m es" and "m < fuel"
  shows "applyLayout fuel ns es \<noteq> None"
proof -
  have f: "\<And>i k. k \<in> set (children_of (childrenMap_of es) i) \<Longrightarrow> i < k \<and> k \<le> m"
    using children_of_forest [OF assms(1)] .
  from calcRootWidths_total [of "childrenMap_of es" m fuel Map.empty "layoutRoots ns es", OF f assms(2)]
  obtain sw where a: "calcRootWidths fuel (childrenMap_of es) Map.empty (layoutRoots ns es) = Some sw"
    by auto
  from positionRoots_total [of "childrenMap_of es" m fuel sw "({}, ns)" "layoutRoots ns es" 0,
      OF f assms(2)]
  obtain st rootX where "positionRoots fuel (childrenMap_of es) sw ({}, ns) (layoutRoots ns es) 0
      = Some (st, rootX)"
    by auto
  with a show ?thesis by (simp add: applyLayout_def Let_def split_beta)
qed

lemma applyLayout_unplace:
  assumes "applyLayout fuel ns es = Some ns'"
  shows "map unplace ns' = map unplace ns"
proof -
  from assms obtain sw P ns1 rootX
    where "positionRoots fuel (childrenMap_of es) sw ({}, ns) (layoutRoots ns es) 0
             = Some ((P, ns1), rootX)"
      and "ns' = placeOrphans P rootX 0 ns1"
    by (auto simp: applyLayout_def Let_def split: option.splits)
  with positionRoots_unplace [OF this(1)] show ?thesis
    by (simp add: unplace_placeOrphans)
qed

text \<open>The graph of a whole plan, parsed from the counter at 0 with no attachment point.\<close>

definition parsePlan :: "MySQLExplainJSON \<Rightarrow> ParseResult" where
  "parsePlan json = fst (parseQueryBlock 0 (query_block json) None Select)"

lemma parsePlan_inv:
  "plan_inv 0 None (parsePlan json, length (nodes (parsePlan json)))"
proof -
  let ?rc = "parseQueryBlock 0 (query_block json) None Select"
  have i: "plan_inv 0 None ?rc" by (rule parser_inv(4)) (simp add: parent_ok_def)
  then have "map node_id (nodes (fst ?rc)) = [Suc 0 ..< Suc (snd ?rc)]"
    by (simp add: plan_inv_def)
  then have "length (map node_id (nodes (fst ?rc))) = snd ?rc" by (simp del: upt_Suc)
  then have "length (nodes (parsePlan json)) = snd ?rc" by (simp add: parsePlan_def)
  with i show ?thesis by (simp add: parsePlan_def)
qed

lemma parsePlan_ordered: "ordered_children (length (nodes (parsePlan json))) (nodes (parsePlan json))"
  using parsePlan_inv [of json] by (simp add: plan_inv_def ordered_children_def)

lemma parsePlan_forest: "forest_edges (length (nodes (parsePlan json))) (edges (parsePlan json))"
  using parsePlan_inv [of json] by (simp add: plan_inv_def forest_edges_def)

lemma parsePlan_ids:
  "map node_id (nodes (parsePlan json)) = [1 ..< Suc (length (nodes (parsePlan json)))]"
  using parsePlan_inv [of json] by (simp add: plan_inv_def)

text \<open>The nodes handed to the layout, and the result of \<^verbatim>\<open>parseExplainJSON\<close> from the
  results of its stages.\<close>

definition flowNodes :: "PlanNode list \<Rightarrow> FlowNode list" where
  "flowNodes pns =
     map (\<lambda>node. \<lparr>flow_id = node_id node, pos_x = 0, pos_y = 0, data = node,
                    maxCost = Math_max (map cost pns @ [Num 1])\<rparr>) pns"

lemma parseExplainJSON_stages:
  assumes "markCriticalPath fuel (nodes (parsePlan json)) = Some pns"
    and "applyLayout fuel (flowNodes pns) (edges (parsePlan json)) = Some ns1"
  shows "fst (parseExplainJSON fuel c json) =
     Some \<lparr>out_nodes = ns1,
           out_edges = map (\<lambda>(e, index). flowEdge pns e index)
                         (zip (edges (parsePlan json)) [0 ..< length (edges (parsePlan json))]),
           planNodes = pns,
           totalCost = foldl (\<lambda>sum node. jsplus sum (cost node)) (Num 0) pns\<rparr>"
  using assms
  by (simp add: parseExplainJSON_def parsePlan_def flowNodes_def split_beta Let_def del: upt_Suc)

lemma parseExplainJSON_returns:
  assumes "length (nodes (parsePlan json)) < fuel"
  obtains pns ns1 where "markCriticalPath fuel (nodes (parsePlan json)) = Some pns"
    and "applyLayout fuel (flowNodes pns) (edges (parsePlan json)) = Some ns1"
    and "map unmark pns = map unmark (nodes (parsePlan json))"
    and "map unplace ns1 = map unplace (flowNodes pns)"
proof -
  from markCriticalPath_total [OF parsePlan_ordered assms]
  obtain pns where a: "markCriticalPath fuel (nodes (parsePlan json)) = Some pns" by auto
  from applyLayout_total [OF parsePlan_forest assms, of "flowNodes pns"]
  obtain ns1 where b: "applyLayout fuel (flowNodes pns) (edges (parsePlan json)) = Some ns1"
    by auto
  from a b markCriticalPath_unmark [OF a] applyLayout_unplace [OF b] that show thesis by blast
qed

section \<open>Referential integrity\<close>

lemma parsePlan_edges_in_nodes:
  assumes "e \<in> set (edges (parsePlan json))"
  shows "source e \<in> node_id ` set (nodes (parsePlan json))"
    and "target e \<in> node_id ` set (nodes (parsePlan json))"
proof -
  let ?m = "length (nodes (parsePlan json))"
  from parsePlan_inv [of json] assms
  have "0 < source e \<and> source e \<le> ?m \<and> target e < source e \<and> 0 < target e"
    by (simp add: plan_inv_def)
  then have "source e \<in> set [1 ..< Suc ?m]" "target e \<in> set [1 ..< Suc ?m]" by auto
  then show "source e \<in> node_id ` set (nodes (parsePlan json))"
    "target e \<in> node_id ` set (nodes (parsePlan json))"
    by (metis parsePlan_ids set_map)+
qed

lemma parsePlan_children_in_nodes:
  assumes "n \<in> set (nodes (parsePlan json))" and "k \<in> set (children n)"
  shows "k \<in> node_id ` set (nodes (parsePlan json))"
proof -
  let ?m = "length (nodes (parsePlan json))"
  from parsePlan_ordered [of json] assms have "node_id n < k \<and> k \<le> ?m"
    by (simp add: ordered_children_def)
  then have "k \<in> set [1 ..< Suc ?m]" by auto
  then show ?thesis by (metis parsePlan_ids set_map)
qed

lemma unmark_children_subset:
  assumes "map unmark pns = map unmark ns"
    and "\<forall>n\<in>set ns. set (children n) \<subseteq> node_id ` set ns"
  shows "\<forall>n\<in>set pns. set (children n) \<subseteq> node_id ` set pns"
proof
  fix n assume "n \<in> set pns"
  then have "unmark n \<in> set (map unmark ns)" using assms(1) by (metis imageI set_map)
  then obtain n' where n': "n' \<in> set ns" "unmark n = unmark n'" by auto
  then have "children (unmark n) = children (unmark n')" by simp
  then have "children n = children n'" by (simp add: unmark_def)
  moreover have "node_id ` set pns = node_id ` set ns"
    using unmark_fields(1) [OF assms(1)] by (metis set_map)
  ultimately show "set (children n) \<subseteq> node_id ` set pns" using assms(2) n'(1) by simp
qed


text \<open>
  C8. With fuel above the number of nodes of the plan, \<^verbatim>\<open>parseExplainJSON\<close> returns, and
  in its result every edge goes from the id of a returned node to the id of a returned
  node, the children of every returned node are ids of returned nodes, and the nodes
  positioned for rendering carry the ids of the plan nodes, in the same order.
\<close>

theorem referential_integrity:
  assumes "length (nodes (parsePlan json)) < fuel"
  shows "\<exists>r. fst (parseExplainJSON fuel c json) = Some r \<and>
     (\<forall>e\<in>set (out_edges r). edge_source e \<in> node_id ` set (planNodes r) \<and>
                              edge_target e \<in> node_id ` set (planNodes r)) \<and>
     (\<forall>n\<in>set (planNodes r). set (children n) \<subseteq> node_id ` set (planNodes r)) \<and>
     map flow_id (out_nodes r) = map node_id (planNodes r)"
proof -
  let ?es = "edges (parsePlan json)"
  from parseExplainJSON_returns [OF assms] obtain pns ns1
    where a: "markCriticalPath fuel (nodes (parsePlan json)) = Some pns"
      and b: "applyLayout fuel (flowNodes pns) ?es = Some ns1"
      and c: "map unmark pns = map unmark (nodes (parsePlan json))"
      and d: "map unplace ns1 = map unplace (flowNodes pns)"
    by blast
  let ?r = "\<lparr>out_nodes = ns1,
           out_edges = map (\<lambda>(e, index). flowEdge pns e index) (zip ?es [0 ..< length ?es]),
           planNodes = pns,
           totalCost = foldl (\<lambda>sum node. jsplus sum (cost node)) (Num 0) pns\<rparr>"
  have r: "fst (parseExplainJSON fuel c json) = Some ?r"
    by (rule parseExplainJSON_stages [OF a b])
  have ids: "node_id ` set pns = node_id ` set (nodes (parsePlan json))"
    using unmark_fields(1) [OF c] by (metis set_map)
  have e: "\<forall>e\<in>set (out_edges ?r). edge_source e \<in> node_id ` set (planNodes ?r) \<and>
                              edge_target e \<in> node_id ` set (planNodes ?r)"
  proof
    fix fe assume "fe \<in> set (out_edges ?r)"
    then obtain e index where "e \<in> set ?es" and "fe = flowEdge pns e index"
      by (auto dest: set_zip_leftD)
    with parsePlan_edges_in_nodes [of e json] ids
    show "edge_source fe \<in> node_id ` set (planNodes ?r) \<and>
          edge_target fe \<in> node_id ` set (planNodes ?r)"
      by (simp add: flowEdge_def Let_def)
  qed
  have k: "\<forall>n\<in>set (planNodes ?r). set (children n) \<subseteq> node_id ` set (planNodes ?r)"
    using unmark_children_subset [OF c] parsePlan_children_in_nodes [of _ json] by auto
  have "map (flow_id \<circ> unplace) ns1 = map (flow_id \<circ> unplace) (flowNodes pns)"
    using d by (metis map_map)
  then have f: "map flow_id (out_nodes ?r) = map node_id (planNodes ?r)"
    by (simp add: unplace_def comp_def flowNodes_def)
  from r e k f show ?thesis by blast
qed

theorem referential_integrity_witness:
  "(let json = \<lparr>query_block = QueryBlock None
        (Some [TableInfo ''orders'' ''ALL'' None None (Some 1000) None None None None None None None None None,
               TableInfo ''customers'' ''eq_ref'' None None (Some 1) None None None None None None None None None])
        None None None None None None None None None\<rparr>
    in length (nodes (parsePlan json)) < 4 \<and>
       (\<exists>r. fst (parseExplainJSON 4 0 json) = Some r \<and>
          (\<forall>e\<in>set (out_edges r). edge_source e \<in> node_id ` set (planNodes r) \<and>
                                   edge_target e \<in> node_id ` set (planNodes r)) \<and>
          (\<forall>n\<in>set (planNodes r). set (children n) \<subseteq> node_id ` set (planNodes r)) \<and>
          map flow_id (out_nodes r) = map node_id (planNodes r)))"
proof -
  let ?json = "\<lparr>query_block = QueryBlock None
        (Some [TableInfo ''orders'' ''ALL'' None None (Some 1000) None None None None None None None None None,
               TableInfo ''customers'' ''eq_ref'' None None (Some 1) None None None None None None None None None])
        None None None None None None None None None\<rparr>"
  have l: "length (nodes (parsePlan ?json)) < 4" by code_simp
  from referential_integrity [OF l, of 0] l show ?thesis unfolding Let_def by blast
qed

section \<open>Repeated parses\<close>




section \<open>The rows of the layout\<close>


























section \<open>Horizontal spans\<close>

text \<open>Two nodes in the same row whose spans, of the width of a node, overlap.\<close>

definition spans_overlap :: "FlowNode \<Rightarrow> FlowNode \<Rightarrow> bool" where
  "spans_overlap a b =
     (pos_y a = pos_y b \<and> pos_x a < pos_x b + nodeWidth \<and> pos_x b < pos_x a + nodeWidth)"

text \<open>
  C9: the claim fails on a plan with two roots. A root is placed with its left edge at
  \<^verbatim>\<open>rootX\<close>, while its children are centred under it, so that a subtree wider than a
  node reaches to the left of \<^verbatim>\<open>rootX\<close>, into the span kept for the root before. A join
  of two tables and, beside it, a subquery that joins three tables: the second table of
  the first join (node 3, at x = 170) and the first table of the second (node 5, at
  x = 400) are in the same row, less than the width of a node (280) apart.
\<close>

theorem roots_subtrees_overlap:
  "(let t = (\<lambda>name. TableInfo name ''ALL'' None None None None None None None None None None None None);
        json = \<lparr>query_block = QueryBlock None (Some [t ''a'', t ''b'']) None None None None None None
           (Some [QueryBlock None (Some [t ''c'', t ''d'', t ''e'']) None None None None None
                    None None None None])
           None None\<rparr>;
        out = fst (parseExplainJSON 8 0 json)
    in map_option (\<lambda>r. map (\<lambda>n. (flow_id n, pos_x n, pos_y n)) (out_nodes r)) out =
         Some [(1, 0, 0), (2, - 170, 200), (3, 170, 200), (4, 740, 0), (5, 400, 200),
               (6, 740, 200), (7, 1080, 200)] \<and>
       map_option (\<lambda>r. spans_overlap (out_nodes r ! 2) (out_nodes r ! 4)) out = Some True)"
  by code_simp

end
